(* ===== verification/Prelude.thy ===== *)
theory Prelude
  imports Main "HOL-Library.Word" "HOL-Library.Monad_Syntax" "HOL-Library.Sublist"
begin

text \<open>
  What every component shares: the names of the machine types, Rust strings as byte lists,
  big-endian encodings, the ASCII and UTF-8 predicates of the standard library, decimal and
  hexadecimal printing, checked indexing and slicing (where Rust panics), and the small monad in
  which the \<open>async\<close> readers are written.
\<close>

unbundle bit_operations_syntax

named_theorems eval_simps \<open>equations that evaluate the model on concrete bytes\<close>
named_theorems wire_simps \<open>equations that compute parsers on the encoded form of a value\<close>

section \<open>Machine types and strings\<close>

type_synonym u8 = "8 word"
type_synonym u16 = "16 word"
type_synonym u32 = "32 word"
type_synonym u64 = "64 word"

type_synonym bytes = "u8 list"

text \<open>A Rust \<open>String\<close> or \<open>&str\<close> is its sequence of UTF-8 bytes.\<close>

type_synonym rstring = "u8 list"

definition ascii :: "string \<Rightarrow> rstring" where
  "ascii s = map of_char s"

lemma ascii_Nil [simp]: "ascii '''' = []"
  by (simp add: ascii_def)

lemma ascii_Cons [eval_simps]: "ascii (c # cs) = of_char c # ascii cs"
  by (simp add: ascii_def)

lemma length_ascii [simp]: "length (ascii s) = length s"
  by (simp add: ascii_def)

section \<open>Checked access: indexing and slicing\<close>

text \<open>
  \<open>buf[i]\<close>, \<open>&buf[i..]\<close> and \<open>&buf[i..j]\<close> panic out of range. Code that uses them
  is modelled in the option monad: \<^const>\<open>None\<close> is the panic.
\<close>

definition index :: "'a list \<Rightarrow> nat \<Rightarrow> 'a option" where
  "index xs i = (if i < length xs then Some (xs ! i) else None)"

definition slice_from :: "'a list \<Rightarrow> nat \<Rightarrow> 'a list option" where
  "slice_from xs i = (if i \<le> length xs then Some (drop i xs) else None)"

definition slice_to :: "'a list \<Rightarrow> nat \<Rightarrow> 'a list option" where
  "slice_to xs j = (if j \<le> length xs then Some (take j xs) else None)"

definition slice :: "'a list \<Rightarrow> nat \<Rightarrow> nat \<Rightarrow> 'a list option" where
  "slice xs i j = (if i \<le> j \<and> j \<le> length xs then Some (take (j - i) (drop i xs)) else None)"

lemma index_in [simp]: "i < length xs \<Longrightarrow> index xs i = Some (xs ! i)"
  by (simp add: index_def)

lemma index_Cons_0 [simp]: "index (x # xs) 0 = Some x"
  by (simp add: index_def)

lemma slice_from_in [simp]: "i \<le> length xs \<Longrightarrow> slice_from xs i = Some (drop i xs)"
  by (simp add: slice_from_def)

lemma slice_to_in [simp]: "j \<le> length xs \<Longrightarrow> slice_to xs j = Some (take j xs)"
  by (simp add: slice_to_def)

lemma slice_in [simp]:
  "i \<le> j \<Longrightarrow> j \<le> length xs \<Longrightarrow> slice xs i j = Some (take (j - i) (drop i xs))"
  by (simp add: slice_def)

section \<open>Big-endian integers\<close>

text \<open>\<open>to_be_bytes\<close> and \<open>from_be_bytes\<close> of the unsigned integer types.\<close>

definition to_be :: "'a::len word \<Rightarrow> bytes" where
  "to_be w = map (\<lambda>i. ucast (drop_bit (8 * i) w)) (rev [0..<LENGTH('a) div 8])"

definition from_be :: "bytes \<Rightarrow> 'a::len word" where
  "from_be bs = foldl (\<lambda>acc b. push_bit 8 acc OR ucast b) 0 bs"

lemma length_to_be [simp]: "length (to_be (w :: 'a::len word)) = LENGTH('a) div 8"
  by (simp add: to_be_def)

lemma be_shift_in:
  "push_bit 8 (drop_bit (8 + k) w) OR ucast (ucast (drop_bit k w) :: u8) = drop_bit k (w :: 'a::len word)"
  by (rule bit_word_eqI)
    (auto simp: bit_or_iff bit_push_bit_iff bit_drop_bit_eq bit_ucast_iff add.commute
      dest: bit_imp_le_length)

lemma from_be_prefix:
  "foldl (\<lambda>acc b. push_bit 8 acc OR ucast b) (drop_bit (8 * n) w)
     (map (\<lambda>i. ucast (drop_bit (8 * i) w) :: u8) (rev [0..<n])) = (w :: 'a::len word)"
proof (induction n)
  case 0
  then show ?case by simp
next
  case (Suc n)
  have "push_bit 8 (drop_bit (8 * Suc n) w) OR ucast (ucast (drop_bit (8 * n) w) :: u8)
      = drop_bit (8 * n) w"
    using be_shift_in [of "8 * n" w] by simp
  with Suc.IH show ?case by simp
qed

lemma from_be_to_be:
  assumes "8 dvd LENGTH('a)"
  shows "from_be (to_be w) = (w :: 'a::len word)"
proof -
  have "drop_bit (8 * (LENGTH('a) div 8)) w = 0"
    using assms by (simp add: drop_bit_word_beyond)
  then show ?thesis
    using from_be_prefix [of "LENGTH('a) div 8" w] by (simp add: from_be_def to_be_def)
qed

lemma from_be_to_be_u16 [simp]: "from_be (to_be w) = (w :: u16)"
  by (rule from_be_to_be) simp

lemma from_be_to_be_u64 [simp]: "from_be (to_be w) = (w :: u64)"
  by (rule from_be_to_be) simp

text \<open>The other direction, on as many bytes as fit.\<close>

lemma from_be_snoc: "from_be (bs @ [b]) = push_bit 8 (from_be bs) OR (ucast b :: 'a::len word)"
  by (simp add: from_be_def)

lemma be_bytes_from_be:
  "8 * length bs \<le> LENGTH('a) \<Longrightarrow>
   map (\<lambda>i. ucast (drop_bit (8 * i) (from_be bs :: 'a::len word))) (rev [0..<length bs]) = bs"
proof (induction bs rule: rev_induct)
  case Nil
  then show ?case by simp
next
  case (snoc b bs)
  let ?x = "from_be bs :: 'a word"
  have step: "(ucast (drop_bit (8 * Suc i) (push_bit 8 ?x OR ucast b)) :: u8) = ucast (drop_bit (8 * i) ?x)"
    if "i < length bs" for i
  proof (rule bit_word_eqI)
    fix k assume "k < LENGTH(8)"
    with that snoc.prems have "8 + (8 * i + k) < LENGTH('a)" and "\<not> bit b (8 + 8 * i + k)"
      using bit_imp_le_length [of b "8 + 8 * i + k"] by auto
    then show "bit (ucast (drop_bit (8 * Suc i) (push_bit 8 ?x OR ucast b)) :: u8) k \<longleftrightarrow>
        bit (ucast (drop_bit (8 * i) ?x) :: u8) k"
      by (simp add: bit_simps)
  qed
  have last: "(ucast (push_bit 8 ?x OR ucast b) :: u8) = b"
    by (rule bit_word_eqI) (use snoc.prems in \<open>auto simp: bit_simps\<close>)
  have rest: "map (\<lambda>i. ucast (drop_bit (8 * Suc i) (push_bit 8 ?x OR ucast b)) :: u8)
      (rev [0..<length bs]) = bs"
    using snoc by (subst map_cong [OF refl step]) auto
  have "rev [0..<length (bs @ [b])] = map Suc (rev [0..<length bs]) @ [0]"
    by (simp add: rev_map [symmetric] map_Suc_upt upt_conv_Cons del: upt_Suc)
  with rest last show ?case
    by (simp only: from_be_snoc map_append map_map comp_def list.map mult_0_right drop_bit_0 id_apply)
qed

lemma to_be_from_be:
  "8 dvd LENGTH('a) \<Longrightarrow> length bs = LENGTH('a) div 8 \<Longrightarrow> to_be (from_be bs :: 'a::len word) = bs"
  using be_bytes_from_be [of bs, where 'a = 'a] by (simp add: to_be_def)

lemma to_be_u16: "to_be (w :: u16) = [ucast (drop_bit 8 w), ucast w]"
  by (simp add: to_be_def upt_rec)

lemma bit_u8_beyond: "\<not> bit (b :: u8) (8 + n)"
  using bit_imp_le_length [of b "8 + n"] by auto

lemma to_be_from_be_u16 [simp]: "to_be (from_be [a, b] :: u16) = [a, b]"
  unfolding to_be_u16 from_be_def
  by (auto intro!: bit_word_eqI
      simp: bit_or_iff bit_push_bit_iff bit_drop_bit_eq bit_ucast_iff bit_u8_beyond
      dest: bit_imp_le_length)

lemma from_be_u16_hi_lo [simp]: "from_be [ucast (drop_bit 8 w), ucast w] = (w :: u16)"
  using from_be_to_be_u16 [of w] by (simp add: to_be_u16)

section \<open>ASCII classes of the standard library\<close>

definition is_ascii_digit :: "u8 \<Rightarrow> bool" where
  "is_ascii_digit b \<longleftrightarrow> 48 \<le> b \<and> b \<le> 57"

definition is_ascii_hexdigit :: "u8 \<Rightarrow> bool" where
  "is_ascii_hexdigit b \<longleftrightarrow> 48 \<le> b \<and> b \<le> 57 \<or> 65 \<le> b \<and> b \<le> 70 \<or> 97 \<le> b \<and> b \<le> 102"

definition to_ascii_lowercase :: "u8 \<Rightarrow> u8" where
  "to_ascii_lowercase b = (if 65 \<le> b \<and> b \<le> 90 then b OR 32 else b)"

definition eq_ignore_ascii_case :: "bytes \<Rightarrow> bytes \<Rightarrow> bool" where
  "eq_ignore_ascii_case xs ys \<longleftrightarrow> map to_ascii_lowercase xs = map to_ascii_lowercase ys"

lemma eq_ignore_ascii_case_refl [simp]: "eq_ignore_ascii_case xs xs"
  by (simp add: eq_ignore_ascii_case_def)

lemma eq_ignore_ascii_case_sym:
  "eq_ignore_ascii_case xs ys \<longleftrightarrow> eq_ignore_ascii_case ys xs"
  by (auto simp: eq_ignore_ascii_case_def)

lemma eq_ignore_ascii_case_trans:
  "eq_ignore_ascii_case xs ys \<Longrightarrow> eq_ignore_ascii_case ys zs \<Longrightarrow> eq_ignore_ascii_case xs zs"
  by (simp add: eq_ignore_ascii_case_def)

lemma eq_ignore_ascii_case_length:
  "eq_ignore_ascii_case xs ys \<Longrightarrow> length xs = length ys"
  unfolding eq_ignore_ascii_case_def by (metis length_map)

section \<open>UTF-8 validity\<close>

text \<open>
  \<open>String::from_utf8\<close> and \<open>str::from_utf8\<close> accept exactly the well-formed sequences of
  the Unicode standard: no overlong forms, no surrogates, nothing above U+10FFFF.
\<close>

definition utf8_cont :: "u8 \<Rightarrow> bool" where
  "utf8_cont b \<longleftrightarrow> 0x80 \<le> b \<and> b \<le> 0xBF"

definition utf8_second3 :: "u8 \<Rightarrow> u8 \<Rightarrow> bool" where
  "utf8_second3 b c \<longleftrightarrow>
     (if b = 0xE0 then 0xA0 \<le> c \<and> c \<le> 0xBF
      else if b = 0xED then 0x80 \<le> c \<and> c \<le> 0x9F
      else utf8_cont c)"

definition utf8_second4 :: "u8 \<Rightarrow> u8 \<Rightarrow> bool" where
  "utf8_second4 b c \<longleftrightarrow>
     (if b = 0xF0 then 0x90 \<le> c \<and> c \<le> 0xBF
      else if b = 0xF4 then 0x80 \<le> c \<and> c \<le> 0x8F
      else utf8_cont c)"

fun utf8_valid :: "bytes \<Rightarrow> bool" where
  "utf8_valid [] = True"
| "utf8_valid (b # bs) =
     (if b < 0x80 then utf8_valid bs
      else if 0xC2 \<le> b \<and> b \<le> 0xDF then
        (case bs of c # cs \<Rightarrow> utf8_cont c \<and> utf8_valid cs | _ \<Rightarrow> False)
      else if 0xE0 \<le> b \<and> b \<le> 0xEF then
        (case bs of c # d # cs \<Rightarrow> utf8_second3 b c \<and> utf8_cont d \<and> utf8_valid cs | _ \<Rightarrow> False)
      else if 0xF0 \<le> b \<and> b \<le> 0xF4 then
        (case bs of c # d # e # cs \<Rightarrow>
           utf8_second4 b c \<and> utf8_cont d \<and> utf8_cont e \<and> utf8_valid cs | _ \<Rightarrow> False)
      else False)"

lemma utf8_valid_ascii: "\<forall>b \<in> set bs. b < 0x80 \<Longrightarrow> utf8_valid bs"
  by (induction bs) auto

lemma hexdigit_lt_128: "is_ascii_hexdigit b \<Longrightarrow> b < 0x80"
  by (auto simp: is_ascii_hexdigit_def word_less_nat_alt word_le_nat_alt)

lemma utf8_valid_hexdigits: "list_all is_ascii_hexdigit bs \<Longrightarrow> utf8_valid bs"
  by (rule utf8_valid_ascii) (auto simp: list_all_iff hexdigit_lt_128)

section \<open>Printing numbers\<close>

text \<open>\<open>{}\<close> of an unsigned integer prints it in base ten, \<open>{:x}\<close> in base sixteen.\<close>

definition digit :: "int \<Rightarrow> u8" where
  "digit d = (if d < 10 then of_int (48 + d) else of_int (87 + d))"

function show_radix :: "int \<Rightarrow> int \<Rightarrow> rstring" where
  "show_radix r n =
     (if r < 2 \<or> n < r then [digit n] else show_radix r (n div r) @ [digit (n mod r)])"
  by pat_completeness auto
termination
proof (relation "measure (\<lambda>(r, n). nat n)")
  fix r n :: int
  assume "\<not> (r < 2 \<or> n < r)"
  then have "n div r < n" and "0 < n"
    by (auto intro: int_div_less_self)
  then show "((r, n div r), (r, n)) \<in> measure (\<lambda>(r, n). nat n)"
    by simp
qed simp

declare show_radix.simps [simp del]

definition show_dec :: "int \<Rightarrow> rstring" where
  "show_dec n = show_radix 10 n"

definition show_hex :: "int \<Rightarrow> rstring" where
  "show_hex n = show_radix 16 n"

section \<open>Polls and the reader monad\<close>

text \<open>
  The outcome of awaiting a future on the input that has arrived: a value, or \<open>Pending\<close> when the
  future still waits. A future that is dropped while pending has already consumed what it read.
\<close>

datatype 'a poll = Ready 'a | Pending

type_synonym ('s, 'e, 'a) io = "'s \<Rightarrow> ('e + 'a) poll \<times> 's"

definition ret :: "'a \<Rightarrow> ('s, 'e, 'a) io" where
  "ret x = (\<lambda>s. (Ready (Inr x), s))"

definition throw :: "'e \<Rightarrow> ('s, 'e, 'a) io" where
  "throw e = (\<lambda>s. (Ready (Inl e), s))"

text \<open>\<open>let x = m.await?; f x\<close>\<close>

definition await :: "('s, 'e, 'a) io \<Rightarrow> ('a \<Rightarrow> ('s, 'e, 'b) io) \<Rightarrow> ('s, 'e, 'b) io" where
  "await m f = (\<lambda>s. case m s of
      (Ready (Inr x), s') \<Rightarrow> f x s'
    | (Ready (Inl e), s') \<Rightarrow> (Ready (Inl e), s')
    | (Pending, s') \<Rightarrow> (Pending, s'))"

text \<open>\<open>?\<close> on a \<open>Result\<close> that is already there.\<close>

definition lift_res :: "'e + 'a \<Rightarrow> ('s, 'e, 'a) io" where
  "lift_res r = (\<lambda>s. (Ready r, s))"

definition bind_res :: "'e + 'a \<Rightarrow> ('a \<Rightarrow> 'e + 'b) \<Rightarrow> 'e + 'b" where
  "bind_res r f = (case r of Inl e \<Rightarrow> Inl e | Inr x \<Rightarrow> f x)"

lemma bind_res_simps [simp]:
  "bind_res (Inl e) f = Inl e"
  "bind_res (Inr x) f = f x"
  by (simp_all add: bind_res_def)

lemma bind_res_Inr_iff: "bind_res r f = Inr y \<longleftrightarrow> (\<exists>x. r = Inr x \<and> f x = Inr y)"
  by (cases r) simp_all

lemma ret_apply [simp]: "ret x s = (Ready (Inr x), s)"
  by (simp add: ret_def)

lemma throw_apply [simp]: "throw e s = (Ready (Inl e), s)"
  by (simp add: throw_def)

lemma lift_res_apply [simp]: "lift_res r s = (Ready r, s)"
  by (simp add: lift_res_def)

lemma await_Ready_Inr: "m s = (Ready (Inr x), s') \<Longrightarrow> await m f s = f x s'"
  by (simp add: await_def)

lemma await_Ready_Inl: "m s = (Ready (Inl e), s') \<Longrightarrow> await m f s = (Ready (Inl e), s')"
  by (simp add: await_def)

lemma await_Pending: "m s = (Pending, s') \<Longrightarrow> await m f s = (Pending, s')"
  by (simp add: await_def)

lemmas await_simps = await_Ready_Inr await_Ready_Inl await_Pending

lemma await_Ready_Inr_iff:
  "await m f s = (Ready (Inr y), t) \<longleftrightarrow> (\<exists>x s'. m s = (Ready (Inr x), s') \<and> f x s' = (Ready (Inr y), t))"
  by (auto simp: await_def split: prod.splits poll.splits sum.splits)

lemma await_ret [simp]: "await (ret x) f = f x"
  by (simp add: fun_eq_iff await_def)

lemma await_throw [simp]: "await (throw e) f = throw e"
  by (simp add: fun_eq_iff await_def)

lemma await_lift_res [simp]:
  "await (lift_res (Inl e)) f = throw e"
  "await (lift_res (Inr x)) f = f x"
  by (simp_all add: fun_eq_iff await_def)

lemma await_assoc: "await (await m f) g = await m (\<lambda>x. await (f x) g)"
  by (auto simp: fun_eq_iff await_def split: prod.splits poll.splits sum.splits)

section \<open>Lists\<close>

lemma nth_append_in [wire_simps]: "i < length xs \<Longrightarrow> (xs @ ys) ! i = xs ! i"
  by (simp add: nth_append)

lemma list_all_take: "list_all P xs \<Longrightarrow> list_all P (take n xs)"
  by (auto simp: list_all_iff dest: in_set_takeD)

lemma list_all_replicate [simp]: "list_all P (replicate n x) \<longleftrightarrow> n = 0 \<or> P x"
  by (induction n) auto

lemma split_at:
  assumes "n \<le> length xs"
  obtains ys zs where "xs = ys @ zs" and "length ys = n"
  using assms by (metis append_take_drop_id length_take min.absorb2)

end
