(* ===== verification/Net.thy ===== *)
theory Net
  imports Prelude
begin

text \<open>
  The part of \<open>std::net\<close> and of string parsing the crate uses: IP and socket addresses, their
  text form (\<open>Display\<close>), and the parsers behind \<open>parse::<SocketAddr>()\<close> and
  \<open>parse::<u16>()\<close>. These model the standard library; the components below use them.
\<close>

section \<open>Addresses\<close>

datatype ipv4_addr = Ipv4Addr u8 u8 u8 u8

datatype ipv6_addr = Ipv6Addr u16 u16 u16 u16 u16 u16 u16 u16

text \<open>\<open>SocketAddrV6\<close> also carries the flow information and the scope id.\<close>

datatype socket_addr =
    V4 ipv4_addr u16
  | V6 ipv6_addr u16 u32 u32

datatype ip_addr = IpV4 ipv4_addr | IpV6 ipv6_addr

text \<open>\<open>SocketAddr::new(ip, port)\<close>: flow information and scope id are zero.\<close>

fun socket_addr_new :: "ip_addr \<Rightarrow> u16 \<Rightarrow> socket_addr" where
  "socket_addr_new (IpV4 ip) port = V4 ip port"
| "socket_addr_new (IpV6 ip) port = V6 ip port 0 0"

fun socket_port :: "socket_addr \<Rightarrow> u16" where
  "socket_port (V4 ip port) = port"
| "socket_port (V6 ip port flow scope) = port"

fun socket_ip :: "socket_addr \<Rightarrow> ip_addr" where
  "socket_ip (V4 ip port) = IpV4 ip"
| "socket_ip (V6 ip port flow scope) = IpV6 ip"

fun ipv4_octets :: "ipv4_addr \<Rightarrow> bytes" where
  "ipv4_octets (Ipv4Addr a b c d) = [a, b, c, d]"

fun ipv6_segments :: "ipv6_addr \<Rightarrow> u16 list" where
  "ipv6_segments (Ipv6Addr a b c d e f g h) = [a, b, c, d, e, f, g, h]"

definition ipv6_octets :: "ipv6_addr \<Rightarrow> bytes" where
  "ipv6_octets ip = concat (map to_be (ipv6_segments ip))"

text \<open>\<open>Ipv4Addr::from([u8; 4])\<close> and \<open>Ipv6Addr::from([u8; 16])\<close>; the arrays have that length.\<close>

definition ipv4_from_octets :: "bytes \<Rightarrow> ipv4_addr" where
  "ipv4_from_octets bs = Ipv4Addr (bs ! 0) (bs ! 1) (bs ! 2) (bs ! 3)"

definition ipv6_from_octets :: "bytes \<Rightarrow> ipv6_addr" where
  "ipv6_from_octets bs = Ipv6Addr
     (from_be [bs ! 0, bs ! 1]) (from_be [bs ! 2, bs ! 3])
     (from_be [bs ! 4, bs ! 5]) (from_be [bs ! 6, bs ! 7])
     (from_be [bs ! 8, bs ! 9]) (from_be [bs ! 10, bs ! 11])
     (from_be [bs ! 12, bs ! 13]) (from_be [bs ! 14, bs ! 15])"

definition ipv6_segments_list :: "u16 list \<Rightarrow> ipv6_addr" where
  "ipv6_segments_list gs = Ipv6Addr (gs ! 0) (gs ! 1) (gs ! 2) (gs ! 3) (gs ! 4) (gs ! 5) (gs ! 6) (gs ! 7)"

lemma length_ipv4_octets [simp]: "length (ipv4_octets ip) = 4"
  by (cases ip) simp

lemma length_ipv6_octets [simp]: "length (ipv6_octets ip) = 16"
  by (cases ip) (simp add: ipv6_octets_def)

lemma ipv4_from_octets_octets [simp]: "ipv4_from_octets (ipv4_octets ip) = ip"
  by (cases ip) (simp add: ipv4_from_octets_def)

lemma ipv6_from_octets_octets [simp]: "ipv6_from_octets (ipv6_octets ip) = ip"
  by (cases ip) (simp add: ipv6_from_octets_def ipv6_octets_def to_be_u16)

lemma ipv4_octets_from_octets: "length bs = 4 \<Longrightarrow> ipv4_octets (ipv4_from_octets bs) = bs"
  by (auto simp: ipv4_from_octets_def numeral_eq_Suc length_Suc_conv)

lemma ipv6_octets_from_octets: "length bs = 16 \<Longrightarrow> ipv6_octets (ipv6_from_octets bs) = bs"
  by (auto simp: ipv6_from_octets_def ipv6_octets_def numeral_eq_Suc length_Suc_conv)

section \<open>Printing\<close>

fun show_ipv4 :: "ipv4_addr \<Rightarrow> rstring" where
  "show_ipv4 (Ipv4Addr a b c d) =
     show_dec (uint a) @ ascii ''.'' @ show_dec (uint b) @ ascii ''.'' @
     show_dec (uint c) @ ascii ''.'' @ show_dec (uint d)"

text \<open>The longest run of zero segments, the first of several.\<close>

fun zero_span :: "nat \<Rightarrow> u16 list \<Rightarrow> nat \<times> nat \<Rightarrow> nat \<times> nat \<Rightarrow> nat \<times> nat" where
  "zero_span i [] current longest = longest"
| "zero_span i (g # gs) (start, len) longest =
     (if g = 0 then
        (let current = (if len = 0 then i else start, len + 1);
             longest = (if snd current > snd longest then current else longest)
         in zero_span (i + 1) gs current longest)
      else zero_span (i + 1) gs (0, 0) longest)"

fun show_subslice :: "u16 list \<Rightarrow> rstring" where
  "show_subslice [] = []"
| "show_subslice [g] = show_hex (uint g)"
| "show_subslice (g # gs) = show_hex (uint g) @ ascii '':'' @ show_subslice gs"

text \<open>IPv4-mapped addresses print as \<open>::ffff:a.b.c.d\<close>.\<close>

definition show_ipv6 :: "ipv6_addr \<Rightarrow> rstring" where
  "show_ipv6 ip =
     (let segments = ipv6_segments ip; octets = ipv6_octets ip in
      if take 6 segments = [0, 0, 0, 0, 0, 0xFFFF] then
        ascii ''::ffff:'' @ show_ipv4 (ipv4_from_octets (drop 12 octets))
      else
        (let (start, len) = zero_span 0 segments (0, 0) (0, 0) in
         if len > 1 then
           show_subslice (take start segments) @ ascii ''::'' @
           show_subslice (drop (start + len) segments)
         else show_subslice segments))"

fun show_ip :: "ip_addr \<Rightarrow> rstring" where
  "show_ip (IpV4 ip) = show_ipv4 ip"
| "show_ip (IpV6 ip) = show_ipv6 ip"

fun show_socket_addr :: "socket_addr \<Rightarrow> rstring" where
  "show_socket_addr (V4 ip port) = show_ipv4 ip @ ascii '':'' @ show_dec (uint port)"
| "show_socket_addr (V6 ip port flow scope) =
     (if scope = 0 then
        ascii ''['' @ show_ipv6 ip @ ascii '']:'' @ show_dec (uint port)
      else
        ascii ''['' @ show_ipv6 ip @ ascii ''%'' @ show_dec (uint scope) @
        ascii '']:'' @ show_dec (uint port))"

section \<open>Parsing\<close>

text \<open>
  A parser of \<open>core::net::parser\<close>; it restores its input when it fails
  (\<open>read_atomically\<close>), so a failure is just \<^const>\<open>None\<close>.
\<close>

type_synonym 'a parser = "bytes \<Rightarrow> ('a \<times> bytes) option"

definition to_digit :: "int \<Rightarrow> u8 \<Rightarrow> int option" where
  "to_digit radix b =
     (let d = (if 48 \<le> b \<and> b \<le> 57 then Some (uint b - 48)
               else if 97 \<le> b \<and> b \<le> 122 then Some (uint b - 87)
               else if 65 \<le> b \<and> b \<le> 90 then Some (uint b - 55)
               else None)
      in case d of Some n \<Rightarrow> (if n < radix then Some n else None) | None \<Rightarrow> None)"

fun read_given_char :: "u8 \<Rightarrow> unit parser" where
  "read_given_char c [] = None"
| "read_given_char c (b # bs) = (if b = c then Some ((), bs) else None)"

text \<open>
  The digit loop of \<open>read_number\<close>: with \<open>max_digits\<close> it gives up on one digit too many,
  without it on overflow of the target type (largest value \<open>tmax\<close>).
\<close>

fun read_digits :: "int \<Rightarrow> nat option \<Rightarrow> int \<Rightarrow> int \<Rightarrow> nat \<Rightarrow> (int \<times> nat) parser" where
  "read_digits radix max_digits tmax acc count [] = Some ((acc, count), [])"
| "read_digits radix max_digits tmax acc count (b # bs) =
     (case to_digit radix b of
        None \<Rightarrow> Some ((acc, count), b # bs)
      | Some d \<Rightarrow>
          (case max_digits of
             Some m \<Rightarrow>
               if m < count + 1 then None
               else read_digits radix max_digits tmax (acc * radix + d) (count + 1) bs
           | None \<Rightarrow>
               if tmax < acc * radix + d then None
               else read_digits radix max_digits tmax (acc * radix + d) (count + 1) bs))"

definition read_number :: "int \<Rightarrow> nat option \<Rightarrow> bool \<Rightarrow> int \<Rightarrow> int parser" where
  "read_number radix max_digits allow_zero_prefix tmax bs =
     (let has_leading_zero = (case bs of b # _ \<Rightarrow> b = 48 | [] \<Rightarrow> False) in
      case read_digits radix max_digits tmax 0 0 bs of
        None \<Rightarrow> None
      | Some ((n, count), rest) \<Rightarrow>
          if count = 0 then None
          else if \<not> allow_zero_prefix \<and> has_leading_zero \<and> 1 < count then None
          else if n \<le> tmax then Some (n, rest) else None)"

text \<open>\<open>read_separator\<close>: the separator is read before every element but the first.\<close>

definition read_separator :: "u8 \<Rightarrow> nat \<Rightarrow> 'a parser \<Rightarrow> 'a parser" where
  "read_separator sep i p bs =
     (if 0 < i then
        (case read_given_char sep bs of None \<Rightarrow> None | Some (_, rest) \<Rightarrow> p rest)
      else p bs)"

definition read_ipv4_group :: "nat \<Rightarrow> int parser" where
  "read_ipv4_group i = read_separator 46 i (read_number 10 (Some 3) False 255)"

definition read_ipv4_addr :: "ipv4_addr parser" where
  "read_ipv4_addr bs = do {
     (a, bs) \<leftarrow> read_ipv4_group 0 bs;
     (b, bs) \<leftarrow> read_ipv4_group 1 bs;
     (c, bs) \<leftarrow> read_ipv4_group 2 bs;
     (d, bs) \<leftarrow> read_ipv4_group 3 bs;
     Some (Ipv4Addr (of_int a) (of_int b) (of_int c) (of_int d), bs)
   }"

text \<open>
  \<open>read_groups\<close> from group \<open>i\<close> of \<open>limit\<close>: the groups read (an embedded IPv4
  address counts as two), and whether an IPv4 address ended it.
\<close>

function read_groups :: "nat \<Rightarrow> nat \<Rightarrow> u16 list \<Rightarrow> bytes \<Rightarrow> (u16 list \<times> bool) \<times> bytes" where
  "read_groups i limit acc bs =
     (if limit \<le> i then ((acc, False), bs)
      else
        (case (if i < limit - 1 then read_separator 58 i read_ipv4_addr bs else None) of
           Some (ip, rest) \<Rightarrow>
             ((acc @ [from_be (take 2 (ipv4_octets ip)), from_be (drop 2 (ipv4_octets ip))], True),
              rest)
         | None \<Rightarrow>
             (case read_separator 58 i (read_number 16 (Some 4) True 65535) bs of
                Some (g, rest) \<Rightarrow> read_groups (i + 1) limit (acc @ [of_int g]) rest
              | None \<Rightarrow> ((acc, False), bs))))"
  by pat_completeness auto
termination
  by (relation "measure (\<lambda>(i, limit, acc, bs). limit - i)") auto

declare read_groups.simps [simp del]

definition read_ipv6_addr :: "ipv6_addr parser" where
  "read_ipv6_addr bs =
     (let ((head, head_ipv4), bs) = read_groups 0 8 [] bs in
      if length head = 8 then Some (ipv6_segments_list head, bs)
      else if head_ipv4 then None
      else do {
        (_, bs) \<leftarrow> read_given_char 58 bs;
        (_, bs) \<leftarrow> read_given_char 58 bs;
        let ((tail, _), bs) = read_groups 0 (8 - (length head + 1)) [] bs;
        Some (ipv6_segments_list
          (head @ replicate (8 - length head - length tail) 0 @ tail), bs)
      })"

definition read_port :: "u16 parser" where
  "read_port bs = do {
     (_, bs) \<leftarrow> read_given_char 58 bs;
     (n, bs) \<leftarrow> read_number 10 None True 65535 bs;
     Some (of_int n, bs)
   }"

definition read_scope_id :: "u32 parser" where
  "read_scope_id bs = do {
     (_, bs) \<leftarrow> read_given_char 37 bs;
     (n, bs) \<leftarrow> read_number 10 None True 4294967295 bs;
     Some (of_int n, bs)
   }"

definition read_socket_addr_v4 :: "socket_addr parser" where
  "read_socket_addr_v4 bs = do {
     (ip, bs) \<leftarrow> read_ipv4_addr bs;
     (port, bs) \<leftarrow> read_port bs;
     Some (V4 ip port, bs)
   }"

definition read_socket_addr_v6 :: "socket_addr parser" where
  "read_socket_addr_v6 bs = do {
     (_, bs) \<leftarrow> read_given_char 91 bs;
     (ip, bs) \<leftarrow> read_ipv6_addr bs;
     let (scope, bs) = (case read_scope_id bs of Some r \<Rightarrow> r | None \<Rightarrow> (0, bs));
     (_, bs) \<leftarrow> read_given_char 93 bs;
     (port, bs) \<leftarrow> read_port bs;
     Some (V6 ip port 0 scope, bs)
   }"

text \<open>\<open>str::parse::<SocketAddr>()\<close>: the whole string must be read.\<close>

definition parse_socket_addr :: "rstring \<Rightarrow> socket_addr option" where
  "parse_socket_addr s =
     (case (case read_socket_addr_v4 s of Some r \<Rightarrow> Some r | None \<Rightarrow> read_socket_addr_v6 s) of
        Some (a, []) \<Rightarrow> Some a
      | _ \<Rightarrow> None)"

text \<open>\<open>str::parse::<u16>()\<close>: an optional plus sign, then only digits, no overflow.\<close>

fun parse_digits :: "int \<Rightarrow> int \<Rightarrow> bytes \<Rightarrow> int option" where
  "parse_digits tmax acc [] = Some acc"
| "parse_digits tmax acc (b # bs) =
     (case to_digit 10 b of
        None \<Rightarrow> None
      | Some d \<Rightarrow> if tmax < acc * 10 + d then None else parse_digits tmax (acc * 10 + d) bs)"

definition parse_u16 :: "rstring \<Rightarrow> u16 option" where
  "parse_u16 s =
     (let body = (case s of b # bs \<Rightarrow> (if b = 43 then bs else s) | [] \<Rightarrow> []) in
      if body = [] then None else map_option of_int (parse_digits 65535 0 body))"

text \<open>\<open>str::rsplit_once\<close> at a one-byte separator: the text around its last occurrence.\<close>

fun rsplit_once :: "u8 \<Rightarrow> rstring \<Rightarrow> (rstring \<times> rstring) option" where
  "rsplit_once c [] = None"
| "rsplit_once c (b # bs) =
     (case rsplit_once c bs of
        Some (l, r) \<Rightarrow> Some (b # l, r)
      | None \<Rightarrow> if b = c then Some ([], bs) else None)"

end
