(* ===== verification/Errors.thy ===== *)
theory Errors
  imports Prelude
begin

text \<open>
  src/error.rs: the error type of the crate, its messages, and the conversions the \<open>?\<close> operator
  applies. An \<open>io::Error\<close> of the standard library is its kind and its message.
\<close>

section \<open>The error type\<close>

datatype error_kind = UnexpectedEof | WouldBlock | OtherKind rstring

datatype io_error = IoError (io_kind: error_kind) (io_message: rstring)

datatype trojan_error =
    Io io_error
  | Tls rstring
  | Protocol rstring
  | AuthenticationFailed
  | InvalidAddressType u8
  | InvalidCommand u8
  | Config rstring
  | Timeout
  | InvalidUtf8
  | RemoteConnectFailed rstring
  | Join rstring

type_synonym 'a res = "trojan_error + 'a"

text \<open>The messages \<open>thiserror\<close> derives from the \<open>#[error(...)]\<close> attributes.\<close>

fun error_display :: "trojan_error \<Rightarrow> rstring" where
  "error_display (Io e) = ascii ''IO error: '' @ io_message e"
| "error_display (Tls m) = ascii ''TLS error: '' @ m"
| "error_display (Protocol m) = ascii ''Protocol error: '' @ m"
| "error_display AuthenticationFailed = ascii ''Authentication failed: invalid password''"
| "error_display (InvalidAddressType b) = ascii ''Invalid address type: '' @ show_dec (uint b)"
| "error_display (InvalidCommand b) = ascii ''Invalid command: '' @ show_dec (uint b)"
| "error_display (Config m) = ascii ''Config error: '' @ m"
| "error_display Timeout = ascii ''Connection timeout''"
| "error_display InvalidUtf8 = ascii ''Invalid UTF-8 sequence''"
| "error_display (RemoteConnectFailed m) = ascii ''Remote connection failed: '' @ m"
| "error_display (Join m) = ascii ''Task join error: '' @ m"

section \<open>Conversions\<close>

text \<open>\<open>impl From<io::Error>\<close> (derived by \<open>#[from]\<close>), as \<open>?\<close> applies it to a result.\<close>

definition from_io :: "io_error + 'a \<Rightarrow> 'a res" where
  "from_io r = (case r of Inl e \<Rightarrow> Inl (Io e) | Inr x \<Rightarrow> Inr x)"

text \<open>
  \<open>impl From<JoinError>\<close>: the error of a joined task is kept as its message; what
  \<open>to_string\<close> prints of it comes from tokio.
\<close>

definition from_join :: "('j \<Rightarrow> rstring) \<Rightarrow> 'j + 'a \<Rightarrow> 'a res" where
  "from_join to_string r = (case r of Inl e \<Rightarrow> Inl (Join (to_string e)) | Inr x \<Rightarrow> Inr x)"

lemma from_io_simps [simp]:
  "from_io (Inl e) = Inl (Io e)"
  "from_io (Inr x) = Inr x"
  by (simp_all add: from_io_def)

lemma from_join_simps [simp]:
  "from_join f (Inl e) = Inl (Join (f e))"
  "from_join f (Inr x) = Inr x"
  by (simp_all add: from_join_def)

lemma from_io_Inr_iff: "from_io r = Inr x \<longleftrightarrow> r = Inr x"
  by (cases r) simp_all

lemma from_join_Inr_iff: "from_join f r = Inr x \<longleftrightarrow> r = Inr x"
  by (cases r) simp_all

text \<open>\<open>m.await?\<close> on an operation with an I/O error.\<close>

definition io_try :: "('s, io_error, 'a) io \<Rightarrow> ('s, trojan_error, 'a) io" where
  "io_try m = (\<lambda>s. case m s of
      (Ready r, s') \<Rightarrow> (Ready (from_io r), s')
    | (Pending, s') \<Rightarrow> (Pending, s'))"

lemma io_try_simps:
  "m s = (Ready (Inr x), s') \<Longrightarrow> io_try m s = (Ready (Inr x), s')"
  "m s = (Ready (Inl e), s') \<Longrightarrow> io_try m s = (Ready (Inl (Io e)), s')"
  "m s = (Pending, s') \<Longrightarrow> io_try m s = (Pending, s')"
  by (simp_all add: io_try_def)

lemma io_try_Ready_iff:
  "io_try m s = (Ready r, s') \<longleftrightarrow> (\<exists>q. m s = (Ready q, s') \<and> r = from_io q)"
  by (auto simp: io_try_def split: prod.splits poll.splits)

end
