(* ===== verification/Streams.thy ===== *)
theory Streams
  imports Errors
begin

text \<open>
  The interface to tokio's readers. \<open>AsyncRead\<close> and \<open>AsyncReadExt\<close> are not code of the
  repository: generic code over \<open>R: AsyncRead\<close> takes the operations it calls as a record, and
  what it relies on of their documented behaviour is the predicate \<open>byte_stream_laws\<close>, the
  assumption of the locale \<open>byte_stream\<close>. A reader is described by its view: the bytes
  that have arrived and are not yet read, and what follows them.
\<close>

section \<open>The operations\<close>

record 's async_reader =
  rd_read :: "nat \<Rightarrow> ('s, io_error, bytes) io"
  rd_exact :: "nat \<Rightarrow> ('s, io_error, bytes) io"
  rd_u8 :: "('s, io_error, u8) io"
  rd_u16 :: "('s, io_error, u16) io"
  rd_u64 :: "('s, io_error, u64) io"

text \<open>After the bytes of a stream: the peer closed it, it breaks, or more may still arrive.\<close>

datatype stream_end = Closed | Broken io_error | Open

type_synonym view = "bytes \<times> stream_end"

section \<open>Documented behaviour on the view\<close>

text \<open>
  \<open>read_exact\<close> returns exactly the bytes asked for, or fails with \<open>UnexpectedEof\<close> at the
  end of the stream, or with the error of the stream, or waits; the integer readers read their
  width in big-endian order.
\<close>

definition short_read :: "io_error \<Rightarrow> stream_end \<Rightarrow> (io_error + 'a) poll" where
  "short_read eof fin =
     (case fin of Closed \<Rightarrow> Ready (Inl eof) | Broken e \<Rightarrow> Ready (Inl e) | Open \<Rightarrow> Pending)"

definition view_exact :: "io_error \<Rightarrow> nat \<Rightarrow> (view, io_error, bytes) io" where
  "view_exact eof n = (\<lambda>(bs, fin).
     if n \<le> length bs then (Ready (Inr (take n bs)), (drop n bs, fin))
     else (short_read eof fin, ([], fin)))"

definition view_int :: "io_error \<Rightarrow> nat \<Rightarrow> (view, io_error, 'a::len word) io" where
  "view_int eof n = await (view_exact eof n) (\<lambda>bs. ret (from_be bs))"

text \<open>\<open>read\<close> with a buffer of \<open>n > 0\<close> bytes: some of the bytes that are there, in order.\<close>

definition read_law :: "('s \<Rightarrow> view) \<Rightarrow> (nat \<Rightarrow> ('s, io_error, bytes) io) \<Rightarrow> bool" where
  "read_law vw m \<longleftrightarrow> (\<forall>n s bs fin. 0 < n \<longrightarrow> vw s = (bs, fin) \<longrightarrow>
     (bs \<noteq> [] \<longrightarrow> (\<exists>k s'. 0 < k \<and> k \<le> n \<and> k \<le> length bs \<and>
        m n s = (Ready (Inr (take k bs)), s') \<and> vw s' = (drop k bs, fin))) \<and>
     (bs = [] \<longrightarrow> (\<exists>s'. vw s' = ([], fin) \<and> m n s =
        (case fin of Closed \<Rightarrow> Ready (Inr []) | Broken e \<Rightarrow> Ready (Inl e) | Open \<Rightarrow> Pending, s'))))"

text \<open>
  An operation agrees with its description on views: the same result, and the described view
  afterwards when it succeeds. After an error or while pending nothing is promised of the state
  (\<open>read_exact\<close> is documented not to be cancellation safe).
\<close>

fun succeeded :: "('e + 'a) poll \<Rightarrow> bool" where
  "succeeded (Ready (Inr x)) \<longleftrightarrow> True"
| "succeeded (Ready (Inl e)) \<longleftrightarrow> False"
| "succeeded Pending \<longleftrightarrow> False"

definition simulates :: "('s \<Rightarrow> view) \<Rightarrow> ('s, 'e, 'a) io \<Rightarrow> (view, 'e, 'a) io \<Rightarrow> bool" where
  "simulates vw m m' \<longleftrightarrow> (\<forall>s. fst (m s) = fst (m' (vw s)) \<and>
     (succeeded (fst (m s)) \<longrightarrow> vw (snd (m s)) = snd (m' (vw s))))"

definition byte_stream_laws :: "'s async_reader \<Rightarrow> ('s \<Rightarrow> view) \<Rightarrow> io_error \<Rightarrow> bool" where
  "byte_stream_laws R vw eof \<longleftrightarrow>
     io_kind eof = UnexpectedEof \<and>
     read_law vw (rd_read R) \<and>
     (\<forall>n. simulates vw (rd_exact R n) (view_exact eof n)) \<and>
     simulates vw (rd_u8 R) (view_int eof 1) \<and>
     simulates vw (rd_u16 R) (view_int eof 2) \<and>
     simulates vw (rd_u64 R) (view_int eof 8)"

section \<open>The reader of a view\<close>

text \<open>
  A reader whose state is its view, returning at most \<open>Suc k\<close> bytes from one \<open>read\<close>; it is the
  reader of in-memory bytes the tests of the repository use (\<open>&[u8]\<close>, \<open>tokio_test\<close>).
\<close>

definition view_read :: "nat \<Rightarrow> nat \<Rightarrow> (view, io_error, bytes) io" where
  "view_read k n = (\<lambda>(bs, fin).
     if bs = [] then
       (case fin of Closed \<Rightarrow> Ready (Inr []) | Broken e \<Rightarrow> Ready (Inl e) | Open \<Rightarrow> Pending, ([], fin))
     else (Ready (Inr (take (min n (Suc k)) bs)), (drop (min n (Suc k)) bs, fin)))"

definition early_eof :: io_error where
  "early_eof = IoError UnexpectedEof (ascii ''early eof'')"

definition view_reader :: "io_error \<Rightarrow> nat \<Rightarrow> view async_reader" where
  "view_reader eof k = \<lparr>rd_read = view_read k, rd_exact = view_exact eof, rd_u8 = view_int eof 1,
     rd_u16 = view_int eof 2, rd_u64 = view_int eof 8\<rparr>"

lemma view_reader_sel [simp]:
  "rd_read (view_reader eof k) = view_read k"
  "rd_exact (view_reader eof k) = view_exact eof"
  "rd_u8 (view_reader eof k) = view_int eof 1"
  "rd_u16 (view_reader eof k) = view_int eof 2"
  "rd_u64 (view_reader eof k) = view_int eof 8"
  by (simp_all add: view_reader_def)

lemma simulates_refl: "simulates id m m"
  by (simp add: simulates_def)

lemma read_law_view_read: "read_law id (view_read k)"
proof -
  have "\<exists>j s'. 0 < j \<and> j \<le> n \<and> j \<le> length bs \<and>
      view_read k n (bs, fin) = (Ready (Inr (take j bs)), s') \<and> s' = (drop j bs, fin)"
    if "0 < n" and "bs \<noteq> []" for n and bs :: bytes and fin
  proof (intro exI conjI)
    let ?j = "min (min n (Suc k)) (length bs)"
    show "0 < ?j" "?j \<le> n" "?j \<le> length bs"
      using that by auto
    show "view_read k n (bs, fin) = (Ready (Inr (take ?j bs)), (drop ?j bs, fin))"
      using that by (auto simp: view_read_def min_def)
  qed simp
  then show ?thesis
    by (auto simp: read_law_def view_read_def split: stream_end.splits)
qed

lemma byte_stream_laws_view_reader:
  "io_kind eof = UnexpectedEof \<Longrightarrow> byte_stream_laws (view_reader eof k) id eof"
  by (simp add: byte_stream_laws_def simulates_refl read_law_view_read)

section \<open>The interfaces\<close>

text \<open>\<open>AsyncRead\<close> alone, and \<open>AsyncRead\<close> with the extension methods.\<close>

locale async_read =
  fixes vw :: "'s \<Rightarrow> view"
    and rd :: "nat \<Rightarrow> ('s, io_error, bytes) io"
  assumes read_ok: "read_law vw rd"
begin

lemma read_some:
  assumes "0 < n" and "vw s = (bs, fin)" and "bs \<noteq> []"
  obtains k s' where "0 < k" "k \<le> n" "k \<le> length bs"
    "rd n s = (Ready (Inr (take k bs)), s')" "vw s' = (drop k bs, fin)"
  using read_ok assms unfolding read_law_def by blast

lemma read_none:
  assumes "0 < n" and "vw s = ([], fin)"
  obtains s' where "vw s' = ([], fin)"
    "rd n s =
       (case fin of Closed \<Rightarrow> Ready (Inr []) | Broken e \<Rightarrow> Ready (Inl e) | Open \<Rightarrow> Pending, s')"
  using read_ok assms unfolding read_law_def by blast

end

locale byte_stream =
  fixes R :: "'s async_reader"
    and vw :: "'s \<Rightarrow> view"
    and eof :: io_error
  assumes laws: "byte_stream_laws R vw eof"
begin

lemma eof_kind: "io_kind eof = UnexpectedEof"
  using laws by (simp add: byte_stream_laws_def)

lemma exact_ok: "simulates vw (rd_exact R n) (view_exact eof n)"
  using laws by (simp add: byte_stream_laws_def)

lemma u8_ok: "simulates vw (rd_u8 R) (view_int eof 1)"
  using laws by (simp add: byte_stream_laws_def)

lemma u16_ok: "simulates vw (rd_u16 R) (view_int eof 2)"
  using laws by (simp add: byte_stream_laws_def)

lemma u64_ok: "simulates vw (rd_u64 R) (view_int eof 8)"
  using laws by (simp add: byte_stream_laws_def)

lemma read_law_R: "read_law vw (rd_read R)"
  using laws by (simp add: byte_stream_laws_def)

end

sublocale byte_stream \<subseteq> reading: async_read vw "rd_read R"
  by unfold_locales (rule read_law_R)

interpretation slice_stream: byte_stream "view_reader early_eof k" id early_eof for k
  by unfold_locales (simp add: byte_stream_laws_view_reader early_eof_def)

section \<open>Simulation through the monad\<close>

named_theorems sim_intros \<open>readers built from simulating readers simulate\<close>

lemma sim_ret [sim_intros]: "simulates vw (ret x) (ret x)"
  by (simp add: simulates_def)

lemma sim_throw [sim_intros]: "simulates vw (throw e) (throw e)"
  by (simp add: simulates_def)

lemma sim_lift_res [sim_intros]: "simulates vw (lift_res r) (lift_res r)"
  by (simp add: simulates_def)

lemma simulatesE:
  assumes "simulates vw m m'"
  obtains r t t' where "m s = (r, t)" and "m' (vw s) = (r, t')" and "succeeded r \<Longrightarrow> t' = vw t"
  using assms unfolding simulates_def by (metis prod.collapse)

lemma sim_await [sim_intros]:
  assumes m: "simulates vw m m'" and f: "\<And>x. simulates vw (f x) (f' x)"
  shows "simulates vw (await m f) (await m' f')"
  unfolding simulates_def
proof
  fix s
  obtain r t t' where "m s = (r, t)" "m' (vw s) = (r, t')" "succeeded r \<Longrightarrow> t' = vw t"
    using simulatesE [OF m, of s] by blast
  with f show "fst (await m f s) = fst (await m' f' (vw s)) \<and>
      (succeeded (fst (await m f s)) \<longrightarrow> vw (snd (await m f s)) = snd (await m' f' (vw s)))"
    by (cases r rule: succeeded.cases) (simp_all add: await_def simulates_def)
qed

lemma succeeded_Ready_from_io [simp]: "succeeded (Ready (from_io r)) \<longleftrightarrow> succeeded (Ready r)"
  by (cases r) simp_all

lemma sim_io_try [sim_intros]:
  assumes m: "simulates vw m m'"
  shows "simulates vw (io_try m) (io_try m')"
  unfolding simulates_def
proof
  fix s
  obtain r t t' where "m s = (r, t)" "m' (vw s) = (r, t')" "succeeded r \<Longrightarrow> t' = vw t"
    using simulatesE [OF m, of s] by blast
  then show "fst (io_try m s) = fst (io_try m' (vw s)) \<and>
      (succeeded (fst (io_try m s)) \<longrightarrow> vw (snd (io_try m s)) = snd (io_try m' (vw s)))"
    by (cases r) (simp_all add: io_try_def)
qed

lemma sim_if [sim_intros]:
  "simulates vw m m' \<Longrightarrow> simulates vw n n' \<Longrightarrow>
   simulates vw (if b then m else n) (if b then m' else n')"
  by simp

text \<open>What a simulating reader returns, read off the reader on views.\<close>

lemma simulates_Ready_Inr_iff:
  assumes "simulates vw m m'"
  shows "(\<exists>t. m s = (Ready (Inr x), t) \<and> vw t = v) \<longleftrightarrow> m' (vw s) = (Ready (Inr x), v)"
  using assms by (rule simulatesE [where s = s]) auto

lemma simulates_result: "simulates vw m m' \<Longrightarrow> fst (m s) = fst (m' (vw s))"
  by (simp add: simulates_def)

section \<open>Computing on views\<close>

lemma view_exact_append [wire_simps]:
  "length xs = n \<Longrightarrow> view_exact eof n (xs @ bs, fin) = (Ready (Inr xs), (bs, fin))"
  by (simp add: view_exact_def)

lemma view_exact_Inr_iff:
  "view_exact eof n (bs, fin) = (Ready (Inr x), t) \<longleftrightarrow>
   length x = n \<and> (\<exists>rest. bs = x @ rest \<and> t = (rest, fin))"
  by (auto simp: view_exact_def short_read_def split: stream_end.splits)

lemma view_int_Inr_iff:
  "view_int eof n (bs, fin) = (Ready (Inr w), t) \<longleftrightarrow>
   (\<exists>x rest. length x = n \<and> bs = x @ rest \<and> w = from_be x \<and> t = (rest, fin))"
  by (auto simp: view_int_def await_Ready_Inr_iff view_exact_Inr_iff)

lemma io_try_Inr_iff:
  "io_try m s = (Ready (Inr x), t) \<longleftrightarrow> m s = (Ready (Inr x), t)"
  by (auto simp: io_try_def from_io_def split: prod.splits poll.splits sum.splits)

lemmas read_Inr_iffs =
  await_Ready_Inr_iff io_try_Inr_iff view_exact_Inr_iff view_int_Inr_iff

lemma from_be_1 [simp]: "from_be [b] = (b :: u8)"
  by (simp add: from_be_def)

end
