(* ===== verification/Commands.thy ===== *)
theory Commands
  imports Errors
begin

text \<open>src/protocol/command.rs: the command byte of a request.\<close>

datatype command = Connect | UdpAssociate

definition command_from_u8 :: "u8 \<Rightarrow> command res" where
  "command_from_u8 value =
     (if value = 0x01 then Inr Connect
      else if value = 0x03 then Inr UdpAssociate
      else Inl (InvalidCommand value))"

fun as_u8 :: "command \<Rightarrow> u8" where
  "as_u8 Connect = 0x01"
| "as_u8 UdpAssociate = 0x03"

lemma command_from_as_u8 [simp]: "command_from_u8 (as_u8 c) = Inr c"
  by (cases c) (simp_all add: command_from_u8_def)

lemma command_from_u8_Inr_iff: "command_from_u8 b = Inr c \<longleftrightarrow> b = as_u8 c"
  by (cases c) (auto simp: command_from_u8_def split: if_splits)

lemma range_as_u8: "range as_u8 = {0x01, 0x03}"
proof -
  have all: "(UNIV :: command set) = {Connect, UdpAssociate}"
    using command.exhaust by blast
  show ?thesis unfolding all by simp
qed

lemma command_from_u8_Inl_iff:
  "command_from_u8 b = Inl e \<longleftrightarrow> b \<notin> range as_u8 \<and> e = InvalidCommand b"
  by (auto simp: command_from_u8_def range_as_u8)

lemma as_u8_inject [simp]: "as_u8 c = as_u8 d \<longleftrightarrow> c = d"
  by (cases c; cases d) simp_all

end
