(* ===== verification/Addresses.thy ===== *)
theory Addresses
  imports Net Streams Commands
begin

text \<open>
  src/protocol/address.rs: target addresses, their reader over a stream, their parser over a
  buffer (in the option monad, \<^const>\<open>None\<close> being a panic), their encoder, and the wire
  format all three agree on.
\<close>

section \<open>The code\<close>

datatype address =
    IPv4 socket_addr
  | IPv6 socket_addr
  | Domain rstring u16

definition TYPE_IPV4 :: u8 where "TYPE_IPV4 = 0x01"
definition TYPE_DOMAIN :: u8 where "TYPE_DOMAIN = 0x03"
definition TYPE_IPV6 :: u8 where "TYPE_IPV6 = 0x04"

lemmas addr_types [simp] = TYPE_IPV4_def TYPE_DOMAIN_def TYPE_IPV6_def

definition address_read_from :: "'s async_reader \<Rightarrow> ('s, trojan_error, address) io" where
  "address_read_from R =
     await (io_try (rd_u8 R)) (\<lambda>addr_type.
       if addr_type = TYPE_IPV4 then
         await (io_try (rd_exact R 4)) (\<lambda>buf.
         let ip = Ipv4Addr (buf ! 0) (buf ! 1) (buf ! 2) (buf ! 3) in
         await (io_try (rd_u16 R)) (\<lambda>port.
         ret (IPv4 (socket_addr_new (IpV4 ip) port))))
       else if addr_type = TYPE_DOMAIN then
         await (io_try (rd_u8 R)) (\<lambda>len.
         await (io_try (rd_exact R (unat len))) (\<lambda>buf.
         await (if utf8_valid buf then ret buf else throw InvalidUtf8) (\<lambda>domain.
         await (io_try (rd_u16 R)) (\<lambda>port.
         ret (Domain domain port)))))
       else if addr_type = TYPE_IPV6 then
         await (io_try (rd_exact R 16)) (\<lambda>buf.
         let ip = Ipv6Addr
             (from_be [buf ! 0, buf ! 1]) (from_be [buf ! 2, buf ! 3])
             (from_be [buf ! 4, buf ! 5]) (from_be [buf ! 6, buf ! 7])
             (from_be [buf ! 8, buf ! 9]) (from_be [buf ! 10, buf ! 11])
             (from_be [buf ! 12, buf ! 13]) (from_be [buf ! 14, buf ! 15]) in
         await (io_try (rd_u16 R)) (\<lambda>port.
         ret (IPv6 (socket_addr_new (IpV6 ip) port))))
       else throw (InvalidAddressType addr_type))"

text \<open>\<open>Ok((placeholder, None))\<close>: the buffer is too short.\<close>

abbreviation need_more :: "(address \<times> nat option) res option" where
  "need_more \<equiv> Some (Inr (Domain [] 0, None))"

text \<open>\<open>u16::from_be_bytes([buf[i], buf[i + 1]])\<close>, panicking out of range.\<close>

definition be16_at :: "bytes \<Rightarrow> nat \<Rightarrow> u16 option" where
  "be16_at buf i = do { hi \<leftarrow> index buf i; lo \<leftarrow> index buf (i + 1); Some (from_be [hi, lo]) }"

definition parse_from_buf :: "bytes \<Rightarrow> (address \<times> nat option) res option" where
  "parse_from_buf buf =
     (if buf = [] then need_more
      else do {
        addr_type \<leftarrow> index buf 0;
        payload \<leftarrow> slice_from buf 1;
        if addr_type = TYPE_IPV4 then
          (if length payload < 6 then need_more
           else do {
             a \<leftarrow> index payload 0;
             b \<leftarrow> index payload 1;
             c \<leftarrow> index payload 2;
             d \<leftarrow> index payload 3;
             port \<leftarrow> be16_at payload 4;
             Some (Inr (IPv4 (socket_addr_new (IpV4 (Ipv4Addr a b c d)) port), Some (1 + 6)))
           })
        else if addr_type = TYPE_DOMAIN then
          (if payload = [] then need_more
           else do {
             len \<leftarrow> index payload 0;
             let domain_len = unat len;
             if length payload < 1 + domain_len + 2 then need_more
             else do {
               domain_bytes \<leftarrow> slice payload 1 (1 + domain_len);
               if \<not> utf8_valid domain_bytes then Some (Inl InvalidUtf8)
               else do {
                 port \<leftarrow> be16_at payload (1 + domain_len);
                 Some (Inr (Domain domain_bytes port, Some (1 + 1 + domain_len + 2)))
               }
             }
           })
        else if addr_type = TYPE_IPV6 then
          (if length payload < 18 then need_more
           else do {
             s0 \<leftarrow> be16_at payload 0;
             s1 \<leftarrow> be16_at payload 2;
             s2 \<leftarrow> be16_at payload 4;
             s3 \<leftarrow> be16_at payload 6;
             s4 \<leftarrow> be16_at payload 8;
             s5 \<leftarrow> be16_at payload 10;
             s6 \<leftarrow> be16_at payload 12;
             s7 \<leftarrow> be16_at payload 14;
             port \<leftarrow> be16_at payload 16;
             Some (Inr (IPv6 (socket_addr_new (IpV6 (Ipv6Addr s0 s1 s2 s3 s4 s5 s6 s7)) port),
               Some (1 + 18)))
           })
        else Some (Inl (InvalidAddressType addr_type))
      })"

fun encode :: "address \<Rightarrow> bytes res" where
  "encode (IPv4 addr) =
     (case addr of
        V4 ip port \<Rightarrow> Inr ([TYPE_IPV4] @ ipv4_octets ip @ to_be (socket_port addr))
      | V6 _ _ _ _ \<Rightarrow>
          Inl (Protocol (ascii ''Address::IPv4 variant contains non-IPv4 socket address'')))"
| "encode (Domain domain port) =
     (if domain = [] \<or> 255 < length domain then
        Inl (Protocol (ascii ''Domain length must be between 1 and 255 bytes''))
      else Inr ([TYPE_DOMAIN] @ [of_nat (length domain)] @ domain @ to_be port))"
| "encode (IPv6 addr) =
     (case addr of
        V6 ip _ _ _ \<Rightarrow> Inr ([TYPE_IPV6] @ ipv6_octets ip @ to_be (socket_port addr))
      | V4 _ _ \<Rightarrow>
          Inl (Protocol (ascii ''Address::IPv6 variant contains non-IPv6 socket address'')))"

fun address_port :: "address \<Rightarrow> u16" where
  "address_port (IPv4 addr) = socket_port addr"
| "address_port (IPv6 addr) = socket_port addr"
| "address_port (Domain _ p) = p"

fun address_host :: "address \<Rightarrow> rstring" where
  "address_host (IPv4 addr) = show_ip (socket_ip addr)"
| "address_host (IPv6 addr) = show_ip (socket_ip addr)"
| "address_host (Domain domain _) = domain"

fun address_display :: "address \<Rightarrow> rstring" where
  "address_display (IPv4 addr) = show_socket_addr addr"
| "address_display (IPv6 addr) = show_socket_addr addr"
| "address_display (Domain domain p) = domain @ ascii '':'' @ show_dec (uint p)"

section \<open>The wire format\<close>

text \<open>
  The specification the parser, the stream reader and the encoder are measured against: which
  byte strings are an address of the protocol, and which address each is.
\<close>

inductive wire_address :: "address \<Rightarrow> bytes \<Rightarrow> bool" where
  wire_ipv4: "wire_address (IPv4 (V4 ip p)) (0x01 # ipv4_octets ip @ to_be p)"
| wire_domain: "length d < 256 \<Longrightarrow> utf8_valid d \<Longrightarrow>
     wire_address (Domain d p) (0x03 # of_nat (length d) # d @ to_be p)"
| wire_ipv6: "wire_address (IPv6 (V6 ip p 0 0)) (0x04 # ipv6_octets ip @ to_be p)"

inductive_cases wire_address_IPv4: "wire_address (IPv4 a) w"
inductive_cases wire_address_Domain: "wire_address (Domain d p) w"
inductive_cases wire_address_IPv6: "wire_address (IPv6 a) w"

text \<open>The byte strings no continuation of which is an address, with the error each is.\<close>

inductive address_error :: "trojan_error \<Rightarrow> bytes \<Rightarrow> bool" where
  error_type: "t \<notin> {0x01, 0x03, 0x04} \<Longrightarrow> address_error (InvalidAddressType t) (t # rest)"
| error_utf8: "length d = unat len \<Longrightarrow> \<not> utf8_valid d \<Longrightarrow> 2 \<le> length rest \<Longrightarrow>
     address_error InvalidUtf8 (0x03 # len # d @ rest)"

text \<open>The type invariant of an address the code has built (\<open>String\<close> is UTF-8).\<close>

fun address_ok :: "address \<Rightarrow> bool" where
  "address_ok (IPv4 addr) \<longleftrightarrow> True"
| "address_ok (IPv6 addr) \<longleftrightarrow> True"
| "address_ok (Domain d p) \<longleftrightarrow> utf8_valid d"

text \<open>What of an address survives the wire: flow information and scope id do not.\<close>

fun wire_part :: "address \<Rightarrow> address" where
  "wire_part (IPv6 (V6 ip p _ _)) = IPv6 (V6 ip p 0 0)"
| "wire_part a = a"

lemma wire_address_length_bounds:
  "wire_address a w \<Longrightarrow> 4 \<le> length w \<and> length w \<le> 259"
  by (induction rule: wire_address.induct) auto

lemma wire_address_ok: "wire_address a w \<Longrightarrow> address_ok a"
  by (induction rule: wire_address.induct) auto

lemma unat_of_nat_u8 [simp]: "n < 256 \<Longrightarrow> unat (of_nat n :: u8) = n"
  by (simp add: unat_of_nat take_bit_eq_mod)

section \<open>The parser computes the wire format\<close>

lemma be16_at_in [simp]:
  "i + 1 < length buf \<Longrightarrow> be16_at buf i = Some (from_be [buf ! i, buf ! (i + 1)])"
  by (simp add: be16_at_def)

lemma ipv4_split:
  assumes "6 \<le> length xs"
  obtains ip p rest where "xs = ipv4_octets ip @ to_be (p :: u16) @ rest"
proof -
  obtain a b c d e f rest where xs: "xs = a # b # c # d # e # f # rest"
    using assms by (auto simp: numeral_eq_Suc Suc_le_length_iff)
  have "xs = ipv4_octets (Ipv4Addr a b c d) @ to_be (from_be [e, f] :: u16) @ rest"
    by (simp add: xs)
  then show thesis by (rule that)
qed

lemma ipv6_split:
  assumes "18 \<le> length xs"
  obtains ip p rest where "xs = ipv6_octets ip @ to_be (p :: u16) @ rest"
proof -
  obtain ys zs where xs: "xs = ys @ zs" and ys: "length ys = 16"
    using assms by (auto intro: split_at [of 16 xs])
  with assms have "2 \<le> length zs" by simp
  then obtain e f rest where zs: "zs = e # f # rest"
    by (auto simp: numeral_eq_Suc Suc_le_length_iff)
  have "xs = ipv6_octets (ipv6_from_octets ys) @ to_be (from_be [e, f] :: u16) @ rest"
    by (simp add: xs zs ipv6_octets_from_octets ys)
  then show thesis by (rule that)
qed

lemma domain_split:
  assumes "n + 2 \<le> length xs"
  obtains d p rest where "length d = n" and "xs = d @ to_be (p :: u16) @ rest"
proof -
  obtain d zs where xs: "xs = d @ zs" and d: "length d = n"
    using assms by (auto intro: split_at [of n xs])
  with assms have "2 \<le> length zs" by simp
  then obtain e f rest where zs: "zs = e # f # rest"
    by (auto simp: numeral_eq_Suc Suc_le_length_iff)
  have "xs = d @ to_be (from_be [e, f] :: u16) @ rest"
    by (simp add: xs zs)
  with d show thesis by (rule that)
qed

lemma parse_ipv4:
  "parse_from_buf (0x01 # payload) =
     (if length payload < 6 then need_more
      else Some (Inr (IPv4 (V4 (ipv4_from_octets (take 4 payload)) (from_be [payload ! 4, payload ! 5])),
        Some 7)))"
  by (auto simp: parse_from_buf_def ipv4_from_octets_def index_def)

lemma parse_ipv6:
  "parse_from_buf (0x04 # payload) =
     (if length payload < 18 then need_more
      else Some (Inr (IPv6 (V6 (ipv6_from_octets (take 16 payload)) (from_be [payload ! 16, payload ! 17]) 0 0),
        Some 19)))"
  by (auto simp: parse_from_buf_def ipv6_from_octets_def)

lemma parse_domain_Nil: "parse_from_buf [0x03] = need_more"
  by (simp add: parse_from_buf_def)

lemma parse_domain:
  "parse_from_buf (0x03 # len # payload) =
     (if length payload < unat len + 2 then need_more
      else if \<not> utf8_valid (take (unat len) payload) then Some (Inl InvalidUtf8)
      else Some (Inr (Domain (take (unat len) payload)
        (from_be [payload ! unat len, payload ! (unat len + 1)]), Some (unat len + 4))))"
  by (auto simp: parse_from_buf_def Let_def)

lemma parse_bad_type:
  "t \<notin> {0x01, 0x03, 0x04} \<Longrightarrow> parse_from_buf (t # payload) = Some (Inl (InvalidAddressType t))"
  by (simp add: parse_from_buf_def)

lemma parse_Nil: "parse_from_buf [] = need_more"
  by (simp add: parse_from_buf_def)

lemmas parse_simps = parse_Nil parse_ipv4 parse_ipv6 parse_domain_Nil parse_domain parse_bad_type

lemma parse_wire:
  assumes "wire_address a w"
  shows "parse_from_buf (w @ rest) = Some (Inr (a, Some (length w)))"
  using assms
proof cases
  case (wire_ipv4 ip p)
  then show ?thesis by (simp add: parse_simps nth_append to_be_u16)
next
  case (wire_domain d p)
  then show ?thesis by (simp add: parse_simps nth_append to_be_u16)
next
  case (wire_ipv6 ip p)
  then show ?thesis by (simp add: parse_simps nth_append to_be_u16)
qed

text \<open>The shapes a buffer can have, in the order the parser looks at it.\<close>

lemma buffer_cases:
  obtains (complete) a w rest where "wire_address a w" "buf = w @ rest"
  | (short) "parse_from_buf buf = need_more"
  | (bad_type) t rest where "buf = t # rest" "t \<notin> {0x01, 0x03, 0x04}"
  | (bad_utf8) len d rest where "buf = 0x03 # len # d @ rest" "length d = unat len"
      "2 \<le> length rest" "\<not> utf8_valid d"
proof (cases buf)
  case Nil
  then show thesis by (intro short) (simp add: parse_simps)
next
  case (Cons t payload)
  consider "t \<notin> {0x01, 0x03, 0x04}" | "t = 0x01" | "t = 0x04" | "t = 0x03" by blast
  then show thesis
  proof cases
    case 1
    with Cons show thesis by (rule bad_type)
  next
    case 2
    show thesis
    proof (cases "length payload < 6")
      case True
      with 2 Cons show thesis by (intro short) (simp add: parse_simps)
    next
      case False
      then obtain ip p rest where "payload = ipv4_octets ip @ to_be (p :: u16) @ rest"
        by (auto intro: ipv4_split [of payload])
      with 2 Cons show thesis
        by (intro complete [OF wire_ipv4 [of ip p], of rest]) simp
    qed
  next
    case 3
    show thesis
    proof (cases "length payload < 18")
      case True
      with 3 Cons show thesis by (intro short) (simp add: parse_simps)
    next
      case False
      then obtain ip p rest where "payload = ipv6_octets ip @ to_be (p :: u16) @ rest"
        by (auto intro: ipv6_split [of payload])
      with 3 Cons show thesis
        by (intro complete [OF wire_ipv6 [of ip p], of rest]) simp
    qed
  next
    case 4
    show thesis
    proof (cases payload)
      case Nil
      with 4 Cons show thesis by (intro short) (simp add: parse_simps)
    next
      case (Cons len body)
      show thesis
      proof (cases "length body < unat len + 2")
        case True
        with 4 \<open>buf = t # payload\<close> Cons show thesis by (intro short) (simp add: parse_simps)
      next
        case False
        then obtain d p rest where d: "length d = unat len" "body = d @ to_be (p :: u16) @ rest"
          by (auto intro: domain_split [of "unat len" body])
        show thesis
        proof (cases "utf8_valid d")
          case True
          have "of_nat (length d) = len" by (simp add: d)
          moreover have "length d < 256" using unsigned_less [of len] by (simp add: d)
          ultimately show thesis
            using 4 \<open>buf = t # payload\<close> Cons d True
            by (intro complete [OF wire_domain [of d p], of rest]) simp_all
        next
          case False
          with 4 \<open>buf = t # payload\<close> Cons d show thesis
            by (intro bad_utf8 [of len d "to_be p @ rest"]) simp_all
        qed
      qed
    qed
  qed
qed

lemma parse_bad_utf8:
  "length d = unat len \<Longrightarrow> 2 \<le> length rest \<Longrightarrow> \<not> utf8_valid d \<Longrightarrow>
   parse_from_buf (0x03 # len # d @ rest) = Some (Inl InvalidUtf8)"
  by (simp add: parse_simps)

lemma parse_total: "parse_from_buf buf \<noteq> None"
  by (cases buf rule: buffer_cases) (simp_all add: parse_wire parse_bad_type parse_bad_utf8)

lemma parse_Some_iff:
  "parse_from_buf buf = Some (Inr (a, Some n)) \<longleftrightarrow>
   (\<exists>w rest. wire_address a w \<and> buf = w @ rest \<and> n = length w)"
proof
  assume "parse_from_buf buf = Some (Inr (a, Some n))"
  then show "\<exists>w rest. wire_address a w \<and> buf = w @ rest \<and> n = length w"
    by (cases buf rule: buffer_cases) (auto simp: parse_wire parse_bad_type parse_bad_utf8)
qed (auto simp: parse_wire)

lemma parse_drop_iff:
  "(\<exists>n. parse_from_buf bs = Some (Inr (a, Some n)) \<and> rest = drop n bs) \<longleftrightarrow>
   (\<exists>w. wire_address a w \<and> bs = w @ rest)"
proof
  assume "\<exists>w. wire_address a w \<and> bs = w @ rest"
  then obtain w where "wire_address a w" "bs = w @ rest" by blast
  then show "\<exists>n. parse_from_buf bs = Some (Inr (a, Some n)) \<and> rest = drop n bs"
    by (intro exI [of _ "length w"]) (simp add: parse_wire)
qed (auto simp: parse_Some_iff)

lemma parse_None_placeholder:
  "parse_from_buf buf = Some (Inr (a, None)) \<Longrightarrow> a = Domain [] 0"
  by (cases buf rule: buffer_cases) (auto simp: parse_wire parse_bad_type parse_bad_utf8)

lemma address_error_append: "address_error e buf \<Longrightarrow> address_error e (buf @ ys)"
  by (induction rule: address_error.induct) (auto intro: address_error.intros)

lemma parse_Inl_iff: "parse_from_buf buf = Some (Inl e) \<longleftrightarrow> address_error e buf"
proof
  assume "parse_from_buf buf = Some (Inl e)"
  then show "address_error e buf"
    by (cases buf rule: buffer_cases)
      (auto simp: parse_wire parse_bad_type parse_bad_utf8 intro: address_error.intros)
next
  assume "address_error e buf"
  then show "parse_from_buf buf = Some (Inl e)"
    by cases (simp_all add: parse_bad_type parse_bad_utf8)
qed

lemma need_more_length: "parse_from_buf buf = need_more \<Longrightarrow> length buf < 259"
proof (cases buf)
  case (Cons t payload)
  assume need: "parse_from_buf buf = need_more"
  consider "t \<notin> {0x01, 0x03, 0x04}" | "t = 0x01" | "t = 0x04" | "t = 0x03" by blast
  then show ?thesis
  proof cases
    case 4
    show ?thesis
    proof (cases payload)
      case (Cons len body)
      with need 4 \<open>buf = t # payload\<close> have "length body < unat len + 2"
        by (auto simp: parse_simps split: if_splits)
      moreover have "unat len < 256" using unsigned_less [of len] by simp
      ultimately show ?thesis using \<open>buf = t # payload\<close> Cons by simp
    qed (simp add: Cons)
  qed (use need Cons in \<open>auto simp: parse_simps split: if_splits\<close>)
qed simp

lemma encode_wire:
  assumes "encode a = Inr w" and "address_ok a"
  shows "wire_address (wire_part a) w"
proof (cases a)
  case (IPv4 addr)
  with assms(1) show ?thesis
    by (cases addr) (auto intro: wire_address.intros)
next
  case (Domain d p)
  with assms show ?thesis
    by (auto intro: wire_address.intros split: if_splits)
next
  case (IPv6 addr)
  with assms(1) show ?thesis
    by (cases addr) (auto intro: wire_address.intros)
qed

lemma wire_encode:
  assumes "wire_address a w" and "\<And>p. a \<noteq> Domain [] p"
  shows "encode a = Inr w"
  using assms by cases auto

section \<open>The stream reader computes the wire format\<close>

lemma view_int_Cons [wire_simps]: "view_int eof (Suc 0) (b # bs, fin) = (Ready (Inr (b :: u8)), (bs, fin))"
  by (simp add: view_int_def await_def view_exact_def)

lemma view_int_to_be [wire_simps]:
  "view_int eof 2 (to_be (p :: u16) @ bs, fin) = (Ready (Inr p), (bs, fin))"
  by (simp add: view_int_def await_def view_exact_append)

lemma io_try_step [wire_simps]:
  "m s = (Ready (Inr x), t) \<Longrightarrow> await (io_try m) f s = f x t"
  by (simp add: await_def io_try_def)

lemmas octets_roundtrip [wire_simps] =
  ipv4_from_octets_octets [unfolded ipv4_from_octets_def One_nat_def]
  ipv6_from_octets_octets [unfolded ipv6_from_octets_def One_nat_def]

lemma view_read_wire:
  assumes "wire_address a w"
  shows "address_read_from (view_reader eof k) (w @ rest, fin) = (Ready (Inr a), (rest, fin))"
  using assms
proof cases
  case (wire_ipv4 ip p)
  then show ?thesis
    by (simp add: address_read_from_def wire_simps)
next
  case (wire_domain d p)
  then show ?thesis
    by (simp add: address_read_from_def wire_simps)
next
  case (wire_ipv6 ip p)
  then show ?thesis
    by (simp add: address_read_from_def wire_simps)
qed

lemma wire_ipv4_octets:
  "length buf = 4 \<Longrightarrow> length q = 2 \<Longrightarrow>
   wire_address (IPv4 (V4 (ipv4_from_octets buf) (from_be q))) (0x01 # buf @ q)"
  using wire_ipv4 [of "ipv4_from_octets buf" "from_be q"]
  by (auto simp: ipv4_octets_from_octets numeral_2_eq_2 length_Suc_conv)

lemma wire_ipv6_octets:
  "length buf = 16 \<Longrightarrow> length q = 2 \<Longrightarrow>
   wire_address (IPv6 (V6 (ipv6_from_octets buf) (from_be q) 0 0)) (0x04 # buf @ q)"
  using wire_ipv6 [of "ipv6_from_octets buf" "from_be q"]
  by (auto simp: ipv6_octets_from_octets numeral_2_eq_2 length_Suc_conv)

lemma wire_domain_bytes:
  assumes "length d = unat len" and "utf8_valid d" and "length q = 2"
  shows "wire_address (Domain d (from_be q)) (0x03 # len # d @ q)"
proof -
  have "length d < 256" using unsigned_less [of len] by (simp add: assms)
  with wire_domain [of d "from_be q"] assms show ?thesis
    by (auto simp: numeral_2_eq_2 length_Suc_conv)
qed

lemma view_read_complete:
  assumes "address_read_from (view_reader eof k) (bs, fin) = (Ready (Inr a), v)"
  shows "\<exists>w rest. wire_address a w \<and> bs = w @ rest \<and> v = (rest, fin)"
proof -
  from assms consider
      (ip4) buf q rest where "length buf = 4" "length q = 2" "bs = (0x01 # buf @ q) @ rest"
        "a = IPv4 (V4 (ipv4_from_octets buf) (from_be q))" "v = (rest, fin)"
    | (dom) len d q rest where "length d = unat len" "utf8_valid d" "length q = 2"
        "bs = (0x03 # len # d @ q) @ rest" "a = Domain d (from_be q)" "v = (rest, fin)"
    | (ip6) buf q rest where "length buf = 16" "length q = 2" "bs = (0x04 # buf @ q) @ rest"
        "a = IPv6 (V6 (ipv6_from_octets buf) (from_be q) 0 0)" "v = (rest, fin)"
    unfolding address_read_from_def Let_def view_reader_sel
    by (fastforce simp: read_Inr_iffs length_Suc_conv ipv4_from_octets_def ipv6_from_octets_def
        split: if_splits)
  then show ?thesis
  proof cases
    case ip4
    with wire_ipv4_octets [of buf q] show ?thesis by blast
  next
    case dom
    with wire_domain_bytes [of d len q] show ?thesis by blast
  next
    case ip6
    with wire_ipv6_octets [of buf q] show ?thesis by blast
  qed
qed

lemma view_read_from_Inr_iff:
  "address_read_from (view_reader eof k) (bs, fin) = (Ready (Inr a), v) \<longleftrightarrow>
   (\<exists>w rest. wire_address a w \<and> bs = w @ rest \<and> v = (rest, fin))"
  by (rule iffI, erule view_read_complete) (auto simp: view_read_wire)

context byte_stream
begin

lemma sim_address_read_from [sim_intros]:
  "simulates vw (address_read_from R) (address_read_from (view_reader eof k))"
  unfolding address_read_from_def Let_def view_reader_sel
  by (intro sim_intros exact_ok u8_ok u16_ok)

end

section \<open>Properties\<close>

text \<open>
  C14. \<open>Address::parse_from_buf\<close> never panics, succeeds on a buffer exactly when the buffer
  starts with the wire form of an address (and then returns that address and its length), and
  fails exactly on the malformed buffers; every other buffer is reported as too short.
\<close>

theorem parse_from_buf_exact:
  "parse_from_buf buf \<noteq> None \<and>
   (\<forall>a n. parse_from_buf buf = Some (Inr (a, Some n)) \<longleftrightarrow>
      (\<exists>w rest. wire_address a w \<and> buf = w @ rest \<and> n = length w)) \<and>
   (\<forall>e. parse_from_buf buf = Some (Inl e) \<longleftrightarrow> address_error e buf)"
  by (simp add: parse_total parse_Some_iff parse_Inl_iff)

text \<open>
  C15. Round trip: what \<open>Address::encode\<close> produces, followed by anything, is parsed back to the
  same address (less the flow information and scope id of an IPv6 socket address, which have no
  place on the wire), consuming exactly the encoding.
\<close>

theorem encode_parse_roundtrip:
  assumes "encode a = Inr w" and "address_ok a"
  shows "parse_from_buf (w @ rest) = Some (Inr (wire_part a, Some (length w)))"
  using encode_wire [OF assms] by (rule parse_wire)

theorem encode_parse_roundtrip_witness:
  "parse_from_buf ([0x03, 2, 0x61, 0x62, 0x01, 0xBB] @ [0x0d, 0x0a]) =
     Some (Inr (wire_part (Domain [0x61, 0x62] 443), Some (length [0x03, 2, 0x61, 0x62, 0x01, 0xBB :: u8])))"
  by (rule encode_parse_roundtrip) (simp_all add: to_be_u16)

text \<open>
  C16. The two parsers agree: over any reader with the documented behaviour, \<open>Address::read_from\<close>
  returns an address exactly when \<open>Address::parse_from_buf\<close> parses it from the bytes of the
  stream, and it consumes exactly the bytes the parser reports.
\<close>

theorem read_from_agrees_with_parse:
  assumes "byte_stream_laws R vw eof" and "vw s = (bs, fin)"
  shows "(\<exists>t. address_read_from R s = (Ready (Inr a), t) \<and> vw t = (rest, fin)) \<longleftrightarrow>
    (\<exists>n. parse_from_buf bs = Some (Inr (a, Some n)) \<and> rest = drop n bs)"
proof -
  have "simulates vw (address_read_from R) (address_read_from (view_reader eof 0))"
    by (rule byte_stream.sim_address_read_from [OF byte_stream.intro [OF assms(1)]])
  from simulates_Ready_Inr_iff [OF this, of s a "(rest, fin)"]
  show ?thesis by (simp add: assms(2) view_read_from_Inr_iff parse_drop_iff)
qed

theorem read_from_agrees_with_parse_witness:
  "(\<exists>t. address_read_from (view_reader early_eof 0) ([0x01, 8, 8, 8, 8, 0, 53, 7], Closed)
        = (Ready (Inr (IPv4 (V4 (Ipv4Addr 8 8 8 8) 53))), t) \<and> id t = ([7], Closed)) \<longleftrightarrow>
   (\<exists>n. parse_from_buf [0x01, 8, 8, 8, 8, 0, 53, 7]
        = Some (Inr (IPv4 (V4 (Ipv4Addr 8 8 8 8) 53), Some n)) \<and>
      [7] = drop n [0x01, 8, 8, 8, 8, 0, 53, 7 :: u8])"
  by (rule read_from_agrees_with_parse [OF slice_stream.laws]) simp

end
