(* ===== verification/Headers.thy ===== *)
theory Headers
  imports Addresses
begin

text \<open>
  src/protocol/header.rs: the Trojan request header
  (\<open>hash CRLF command address CRLF\<close>), its reader over a stream, the incremental parser the
  server runs on the bytes it has peeked, password verification, and the wire format both
  parsers agree on.
\<close>

section \<open>The code\<close>

definition PEEK_SIZE :: nat where "PEEK_SIZE = 512"
definition PASSWORD_HEX_LEN :: nat where "PASSWORD_HEX_LEN = 56"
definition CRLF :: bytes where "CRLF = [0x0d, 0x0a]"

lemmas header_consts = PEEK_SIZE_def PASSWORD_HEX_LEN_def CRLF_def

record header =
  h_password_hash :: bytes
  h_command :: command
  h_address :: address

definition expect_crlf :: "'s async_reader \<Rightarrow> rstring \<Rightarrow> ('s, trojan_error, unit) io" where
  "expect_crlf R field =
     await (io_try (rd_exact R 2)) (\<lambda>crlf.
     if crlf \<noteq> CRLF then throw (Protocol (ascii ''Invalid CRLF after '' @ field))
     else ret ())"

definition header_read_from :: "'s async_reader \<Rightarrow> ('s, trojan_error, header) io" where
  "header_read_from R =
     await (io_try (rd_exact R PASSWORD_HEX_LEN)) (\<lambda>password_hash.
     if \<not> list_all is_ascii_hexdigit password_hash then
       throw (Protocol (ascii ''Invalid password hash format: expected 56-byte hex string''))
     else
       await (expect_crlf R (ascii ''password hash'')) (\<lambda>_.
       await (io_try (rd_u8 R)) (\<lambda>cmd_byte.
       await (lift_res (command_from_u8 cmd_byte)) (\<lambda>command.
       await (address_read_from R) (\<lambda>address.
       await (expect_crlf R (ascii ''target address'')) (\<lambda>_.
       ret \<lparr>h_password_hash = password_hash, h_command = command, h_address = address\<rparr>))))))"

definition try_parse_from_buf :: "bytes \<Rightarrow> header option res option" where
  "try_parse_from_buf buf =
     (if length buf < PASSWORD_HEX_LEN + 2 then Some (Inr None)
      else do {
        password_hash \<leftarrow> slice_to buf PASSWORD_HEX_LEN;
        if \<not> list_all is_ascii_hexdigit password_hash then
          Some (Inl (Protocol (ascii ''Invalid password hash: not hex digits'')))
        else do {
          let pos = PASSWORD_HEX_LEN;
          if length buf < pos + 2 then Some (Inr None)
          else do {
            cr \<leftarrow> index buf pos;
            lf \<leftarrow> index buf (pos + 1);
            if cr \<noteq> 0x0d \<or> lf \<noteq> 0x0a then
              Some (Inl (Protocol (ascii ''Missing CRLF after password hash'')))
            else do {
              let pos = pos + 2;
              if length buf < pos + 1 then Some (Inr None)
              else do {
                cmd_byte \<leftarrow> index buf pos;
                case command_from_u8 cmd_byte of
                  Inl e \<Rightarrow> Some (Inl e)
                | Inr command \<Rightarrow> do {
                    let pos = pos + 1;
                    addr_buf \<leftarrow> slice_from buf pos;
                    parsed \<leftarrow> parse_from_buf addr_buf;
                    case parsed of
                      Inl e \<Rightarrow> Some (Inl e)
                    | Inr (address, None) \<Rightarrow> Some (Inr None)
                    | Inr (address, Some addr_end) \<Rightarrow> do {
                        let pos = pos + addr_end;
                        if length buf < pos + 2 then Some (Inr None)
                        else do {
                          cr \<leftarrow> index buf pos;
                          lf \<leftarrow> index buf (pos + 1);
                          if cr \<noteq> 0x0d \<or> lf \<noteq> 0x0a then
                            Some (Inl (Protocol (ascii ''Missing CRLF after target address'')))
                          else
                            Some (Inr (Some \<lparr>h_password_hash = password_hash,
                              h_command = command, h_address = address\<rparr>))
                        }
                      }
                  }
              }
            }
          }
        }
      })"

definition verify_password :: "header \<Rightarrow> rstring list \<Rightarrow> bool" where
  "verify_password h password_hashes =
     list_ex (\<lambda>expected. length expected = PASSWORD_HEX_LEN \<and>
       eq_ignore_ascii_case expected (h_password_hash h)) password_hashes"

text \<open>\<open>sha2\<close> and \<open>hex\<close> are dependencies: the digest and its hex encoding are parameters.\<close>

definition hash_password :: "(bytes \<Rightarrow> bytes) \<Rightarrow> (bytes \<Rightarrow> rstring) \<Rightarrow> rstring \<Rightarrow> rstring" where
  "hash_password sha224 hex_encode password = hex_encode (sha224 password)"

section \<open>The wire format\<close>

inductive wire_header :: "header \<Rightarrow> bytes \<Rightarrow> bool" where
  wire_headerI: "length pw = 56 \<Longrightarrow> list_all is_ascii_hexdigit pw \<Longrightarrow> wire_address a w \<Longrightarrow>
    wire_header \<lparr>h_password_hash = pw, h_command = c, h_address = a\<rparr>
      (pw @ [0x0d, 0x0a] @ [as_u8 c] @ w @ [0x0d, 0x0a])"

inductive_simps wire_header_iff: "wire_header h w"

text \<open>
  What makes a buffer break the format, by its first violation, and the error it is. A violation within a part that has
  not arrived in full is none yet: ten bytes that are no hex digits, or a domain cut off behind bytes that
  are not UTF-8, could not become a header, but are not looked at before they are complete.
\<close>

inductive header_error :: "trojan_error \<Rightarrow> bytes \<Rightarrow> bool" where
  error_hash: "length pw = 56 \<Longrightarrow> \<not> list_all is_ascii_hexdigit pw \<Longrightarrow> 2 \<le> length rest \<Longrightarrow>
    header_error (Protocol (ascii ''Invalid password hash: not hex digits'')) (pw @ rest)"
| error_crlf1: "length pw = 56 \<Longrightarrow> list_all is_ascii_hexdigit pw \<Longrightarrow> (x, y) \<noteq> (0x0d, 0x0a) \<Longrightarrow>
    header_error (Protocol (ascii ''Missing CRLF after password hash'')) (pw @ x # y # rest)"
| error_command: "length pw = 56 \<Longrightarrow> list_all is_ascii_hexdigit pw \<Longrightarrow> c \<notin> range as_u8 \<Longrightarrow>
    header_error (InvalidCommand c) (pw @ 0x0d # 0x0a # c # rest)"
| error_address: "length pw = 56 \<Longrightarrow> list_all is_ascii_hexdigit pw \<Longrightarrow> address_error e rest \<Longrightarrow>
    header_error e (pw @ 0x0d # 0x0a # as_u8 c # rest)"
| error_crlf2: "length pw = 56 \<Longrightarrow> list_all is_ascii_hexdigit pw \<Longrightarrow> wire_address a w \<Longrightarrow>
    (x, y) \<noteq> (0x0d, 0x0a) \<Longrightarrow>
    header_error (Protocol (ascii ''Missing CRLF after target address''))
      (pw @ 0x0d # 0x0a # as_u8 c # w @ x # y # rest)"

lemma header_error_append: "header_error e buf \<Longrightarrow> header_error e (buf @ ys)"
  by (induction rule: header_error.induct)
    (auto intro: header_error.intros address_error_append)

lemma wire_header_length: "wire_header h w \<Longrightarrow> 65 \<le> length w \<and> length w \<le> 320"
  by (induction rule: wire_header.induct) (auto dest: wire_address_length_bounds)

section \<open>The parser computes the wire format\<close>

lemma try_parse_short: "length buf < 58 \<Longrightarrow> try_parse_from_buf buf = Some (Inr None)"
  by (simp add: try_parse_from_buf_def header_consts)

lemma try_parse_bad_hash:
  "length pw = 56 \<Longrightarrow> \<not> list_all is_ascii_hexdigit pw \<Longrightarrow> 2 \<le> length rest \<Longrightarrow>
   try_parse_from_buf (pw @ rest) =
     Some (Inl (Protocol (ascii ''Invalid password hash: not hex digits'')))"
  by (simp add: try_parse_from_buf_def header_consts)

lemma try_parse_bad_crlf1:
  "length pw = 56 \<Longrightarrow> list_all is_ascii_hexdigit pw \<Longrightarrow> (x, y) \<noteq> (0x0d, 0x0a) \<Longrightarrow>
   try_parse_from_buf (pw @ x # y # rest) =
     Some (Inl (Protocol (ascii ''Missing CRLF after password hash'')))"
  by (simp add: try_parse_from_buf_def header_consts nth_append)

lemma try_parse_no_command:
  "length pw = 56 \<Longrightarrow> list_all is_ascii_hexdigit pw \<Longrightarrow>
   try_parse_from_buf (pw @ [0x0d, 0x0a]) = Some (Inr None)"
  by (simp add: try_parse_from_buf_def header_consts nth_append)

lemma try_parse_bad_command:
  "length pw = 56 \<Longrightarrow> list_all is_ascii_hexdigit pw \<Longrightarrow> command_from_u8 c = Inl e \<Longrightarrow>
   try_parse_from_buf (pw @ 0x0d # 0x0a # c # rest) = Some (Inl e)"
  by (simp add: try_parse_from_buf_def header_consts nth_append)

lemma try_parse_address:
  "length pw = 56 \<Longrightarrow> list_all is_ascii_hexdigit pw \<Longrightarrow>
   try_parse_from_buf (pw @ 0x0d # 0x0a # as_u8 c # rest) =
     (case parse_from_buf rest of
        None \<Rightarrow> None
      | Some (Inl e) \<Rightarrow> Some (Inl e)
      | Some (Inr (a, None)) \<Rightarrow> Some (Inr None)
      | Some (Inr (a, Some n)) \<Rightarrow>
          if length rest < n + 2 then Some (Inr None)
          else if rest ! n \<noteq> 0x0d \<or> rest ! (n + 1) \<noteq> 0x0a then
            Some (Inl (Protocol (ascii ''Missing CRLF after target address'')))
          else Some (Inr (Some \<lparr>h_password_hash = pw, h_command = c, h_address = a\<rparr>)))"
  by (simp add: try_parse_from_buf_def header_consts nth_append split: option.splits sum.splits)

lemmas try_parse_simps =
  try_parse_short try_parse_bad_hash try_parse_bad_crlf1 try_parse_no_command
  try_parse_bad_command try_parse_address

lemma try_parse_wire:
  assumes "wire_header h w"
  shows "try_parse_from_buf (w @ rest) = Some (Inr (Some h))"
  using assms
proof cases
  case (wire_headerI pw a v c)
  then show ?thesis
    by (simp add: try_parse_address parse_wire nth_append)
qed

lemma header_cases:
  obtains (complete) h w rest where "wire_header h w" "buf = w @ rest"
  | (short) "try_parse_from_buf buf = Some (Inr None)" "length buf < 320"
  | (error) e where "header_error e buf"
proof (cases "length buf < 58")
  case True
  then show thesis by (intro short) (simp_all add: try_parse_short)
next
  case False
  then obtain pw ys where buf: "buf = pw @ ys" and pw: "length pw = 56"
    by (auto intro: split_at [of 56 buf])
  with False have "2 \<le> length ys" by simp
  then obtain x y zs where ys: "ys = x # y # zs"
    by (auto simp: numeral_eq_Suc Suc_le_length_iff)
  show thesis
  proof (cases "list_all is_ascii_hexdigit pw \<and> (x, y) = (0x0d, 0x0a)")
    case False
    then consider "\<not> list_all is_ascii_hexdigit pw"
      | "list_all is_ascii_hexdigit pw" "(x, y) \<noteq> (0x0d, 0x0a)" by blast
    then show thesis
    proof cases
      case 1
      from error_hash [OF pw 1, of ys] show thesis by (intro error) (simp add: buf ys)
    next
      case 2
      from error_crlf1 [OF pw 2, of zs] show thesis by (intro error) (simp add: buf ys)
    qed
  next
    case pw_ok: True
    show thesis
    proof (cases zs)
      case Nil
      then show thesis
        using pw pw_ok by (intro short) (simp_all add: buf ys try_parse_no_command)
    next
      case (Cons c rest)
      have shape': "buf = pw @ 0x0d # 0x0a # c # rest"
        using pw_ok by (simp add: buf ys Cons)
      show thesis
      proof (cases "c \<in> range as_u8")
        case False
        from error_command [OF pw _ False, of rest] pw_ok show thesis
          by (intro error) (simp add: shape')
      next
        case True
        then obtain cmd where c: "c = as_u8 cmd" by blast
        have shape: "buf = pw @ 0x0d # 0x0a # as_u8 cmd # rest"
          by (simp add: shape' c)
        show thesis
        proof (cases rest rule: buffer_cases)
          case (complete a w tail)
          show thesis
          proof (cases "2 \<le> length tail")
            case False
            have "length w \<le> 259" using complete(1) wire_address_length_bounds by blast
            with False complete pw pw_ok show thesis
              by (intro short) (simp_all add: shape try_parse_address parse_wire)
          next
            case True
            then obtain x' y' tail' where tail: "tail = x' # y' # tail'"
              by (auto simp: numeral_eq_Suc Suc_le_length_iff)
            show thesis
            proof (cases "(x', y') = (0x0d, 0x0a)")
              case True
              with complete(2) tail pw_ok show thesis
                by (intro that(1) [OF wire_headerI [OF pw _ complete(1), of cmd], of tail'])
                  (simp_all add: shape)
            next
              case False
              from error_crlf2 [OF pw _ complete(1) False, of cmd tail'] pw_ok show thesis
                by (intro error) (simp add: shape complete(2) tail)
            qed
          qed
        next
          case short
          then have "length rest < 259" by (rule need_more_length)
          with short pw pw_ok show thesis
            by (intro that(2)) (simp_all add: shape try_parse_address)
        next
          case (bad_type t tail)
          then show thesis
            using error_address [OF pw _ error_type, of t cmd tail] pw_ok
            by (intro error) (auto simp: shape)
        next
          case (bad_utf8 len d tail)
          then show thesis
            using error_address [OF pw _ error_utf8, of d len tail cmd] pw_ok
            by (intro error) (auto simp: shape)
        qed
      qed
    qed
  qed
qed

lemma try_parse_error:
  "header_error e buf \<Longrightarrow> try_parse_from_buf buf = Some (Inl e)"
  by (induction rule: header_error.induct)
    (simp_all add: try_parse_bad_hash try_parse_bad_crlf1 try_parse_bad_command try_parse_address
      command_from_u8_Inl_iff parse_Inl_iff [THEN iffD2] parse_wire nth_append)

lemma try_parse_total: "try_parse_from_buf buf \<noteq> None"
  by (cases buf rule: header_cases) (auto simp: try_parse_wire dest: try_parse_error)

lemma try_parse_Some_iff:
  "try_parse_from_buf buf = Some (Inr (Some h)) \<longleftrightarrow> (\<exists>w rest. wire_header h w \<and> buf = w @ rest)"
proof
  assume "try_parse_from_buf buf = Some (Inr (Some h))"
  then show "\<exists>w rest. wire_header h w \<and> buf = w @ rest"
    by (cases buf rule: header_cases) (auto simp: try_parse_wire dest: try_parse_error)
qed (auto simp: try_parse_wire)

lemma try_parse_Inl_iff: "try_parse_from_buf buf = Some (Inl e) \<longleftrightarrow> header_error e buf"
proof
  assume parse: "try_parse_from_buf buf = Some (Inl e)"
  then show "header_error e buf"
  proof (cases buf rule: header_cases)
    case (error e')
    with parse try_parse_error [OF error] show ?thesis by simp
  qed (simp_all add: try_parse_wire)
qed (rule try_parse_error)

lemma try_parse_more_length:
  "try_parse_from_buf buf = Some (Inr None) \<Longrightarrow> length buf < 320"
  by (cases buf rule: header_cases) (auto simp: try_parse_wire dest: try_parse_error)

lemma try_parse_append:
  assumes "try_parse_from_buf buf = Some r" and "r \<noteq> Inr None"
  shows "try_parse_from_buf (buf @ ys) = Some r"
proof (cases buf rule: header_cases)
  case (complete h w rest)
  with assms show ?thesis by (simp add: try_parse_wire)
next
  case (error e)
  with assms try_parse_error [OF error] try_parse_error [OF header_error_append [OF error, of ys]]
  show ?thesis by simp
qed (use assms in simp)


section \<open>The stream reader computes the wire format\<close>

lemma view_expect_crlf_iff:
  "expect_crlf (view_reader eof k) f (bs, fin) = (Ready (Inr u), v) \<longleftrightarrow>
   (\<exists>rest. bs = 0x0d # 0x0a # rest \<and> v = (rest, fin))"
  by (auto simp: expect_crlf_def read_Inr_iffs CRLF_def split: if_splits)

lemma lift_res_Inr_iff: "lift_res r s = (Ready (Inr x), t) \<longleftrightarrow> r = Inr x \<and> t = s"
  by auto

lemma view_expect_crlf [wire_simps]:
  "expect_crlf (view_reader eof k) f (0x0d # 0x0a # rest, fin) = (Ready (Inr ()), (rest, fin))"
  by (simp add: view_expect_crlf_iff)

lemma view_header_read_wire:
  assumes "wire_header h w"
  shows "header_read_from (view_reader eof k) (w @ rest, fin) = (Ready (Inr h), (rest, fin))"
  using assms
proof cases
  case (wire_headerI pw a v c)
  then show ?thesis
    by (simp add: header_read_from_def PASSWORD_HEX_LEN_def wire_simps await_Ready_Inr view_read_wire)
qed

lemma view_header_read_complete:
  assumes "header_read_from (view_reader eof k) (bs, fin) = (Ready (Inr h), v)"
  shows "\<exists>w rest. wire_header h w \<and> bs = w @ rest \<and> v = (rest, fin)"
proof -
  from assms obtain pw c a w rest where "length pw = 56" "list_all is_ascii_hexdigit pw"
    "wire_address a w" "h = \<lparr>h_password_hash = pw, h_command = c, h_address = a\<rparr>"
    "bs = (pw @ [0x0d, 0x0a] @ [as_u8 c] @ w @ [0x0d, 0x0a]) @ rest" "v = (rest, fin)"
    unfolding header_read_from_def
    by (auto simp: read_Inr_iffs view_expect_crlf_iff view_read_from_Inr_iff lift_res_Inr_iff
        command_from_u8_Inr_iff PASSWORD_HEX_LEN_def length_Suc_conv split: if_splits)
  then show ?thesis
    using wire_headerI [of pw a w c] by blast
qed

lemma view_header_read_Inr_iff:
  "header_read_from (view_reader eof k) (bs, fin) = (Ready (Inr h), v) \<longleftrightarrow>
   (\<exists>w rest. wire_header h w \<and> bs = w @ rest \<and> v = (rest, fin))"
  by (rule iffI, erule view_header_read_complete) (auto simp: view_header_read_wire)

context byte_stream
begin

lemma sim_expect_crlf [sim_intros]:
  "simulates vw (expect_crlf R f) (expect_crlf (view_reader eof k) f)"
  unfolding expect_crlf_def view_reader_sel
  by (intro sim_intros exact_ok)

lemma sim_header_read_from [sim_intros]:
  "simulates vw (header_read_from R) (header_read_from (view_reader eof k))"
  unfolding header_read_from_def view_reader_sel
  by (intro sim_intros exact_ok u8_ok sim_expect_crlf sim_address_read_from)

end

section \<open>Properties\<close>

lemma try_parse_rejects_all:
  assumes "try_parse_from_buf buf = Some (Inl e)" and "wire_header h w"
  shows "buf @ ys \<noteq> w @ rest"
  using try_parse_append [OF assms(1), of ys] try_parse_wire [OF assms(2), of rest] by auto

lemma try_parse_long:
  assumes "320 \<le> length buf"
  shows "(\<exists>e. try_parse_from_buf buf = Some (Inl e)) \<longleftrightarrow> \<not> (\<exists>h w rest. wire_header h w \<and> buf = w @ rest)"
proof (cases "try_parse_from_buf buf")
  case None
  with try_parse_total show ?thesis by blast
next
  case (Some r)
  consider (error) e where "r = Inl e" | (waits) "r = Inr None" | (ok) h where "r = Inr (Some h)"
    by (cases r) (auto elim: option.exhaust)
  then show ?thesis
  proof cases
    case error
    with Some try_parse_rejects_all [of buf e _ _ "[]"] show ?thesis by auto
  next
    case waits
    with Some try_parse_more_length [of buf] assms show ?thesis by simp
  next
    case ok
    with Some try_parse_Some_iff [of buf h] show ?thesis by auto
  qed
qed

text \<open>
  C9. \<open>Header::try_parse_from_buf\<close> never panics; it returns a header exactly on the buffers that
  start with its wire form; a buffer it rejects has no continuation that starts with a header, and is
  rejected with the error its first violation of the format calls for; and from 320 bytes on (the longest header),
  where it never asks for more, it rejects exactly the buffers that do not start with a header. Below that it may
  still ask for more where no continuation can be a header, since it only judges parts that have arrived in full.
\<close>

theorem try_parse_exact:
  "try_parse_from_buf buf \<noteq> None \<and>
   (\<forall>h. try_parse_from_buf buf = Some (Inr (Some h)) \<longleftrightarrow>
      (\<exists>w rest. wire_header h w \<and> buf = w @ rest)) \<and>
   (\<forall>e. try_parse_from_buf buf = Some (Inl e) \<longrightarrow>
      \<not> (\<exists>ys h w rest. wire_header h w \<and> buf @ ys = w @ rest)) \<and>
   (\<forall>e. try_parse_from_buf buf = Some (Inl e) \<longleftrightarrow> header_error e buf) \<and>
   (320 \<le> length buf \<longrightarrow>
      ((\<exists>e. try_parse_from_buf buf = Some (Inl e)) \<longleftrightarrow>
       \<not> (\<exists>h w rest. wire_header h w \<and> buf = w @ rest)))"
  using try_parse_rejects_all [of buf]
  by (simp add: try_parse_total try_parse_Some_iff try_parse_Inl_iff [symmetric] try_parse_long)

theorem try_parse_exact_witness:
  "(\<exists>e. try_parse_from_buf (replicate 320 0x7A) = Some (Inl e)) \<and>
   \<not> (\<exists>ys h w rest. wire_header h w \<and> replicate 320 0x7A @ ys = w @ rest)"
proof -
  have "replicate 320 0x7A = replicate 56 0x7A @ replicate 264 (0x7A :: u8)"
    by (simp flip: replicate_add)
  then have "try_parse_from_buf (replicate 320 0x7A) =
      Some (Inl (Protocol (ascii ''Invalid password hash: not hex digits'')))"
    by (simp only:) (rule try_parse_bad_hash, simp_all add: is_ascii_hexdigit_def)
  with try_parse_exact [of "replicate 320 0x7A"] show ?thesis by blast
qed

text \<open>Ten bytes that cannot become a header, for which the parser still waits.\<close>

lemma hopeless_but_waiting:
  "try_parse_from_buf (replicate 10 0x7A) = Some (Inr None)"
  by (simp add: try_parse_from_buf_def PASSWORD_HEX_LEN_def)

text \<open>
  C40. Incremental parsing is sound: once the parser has accepted or rejected a buffer, its answer
  is the same on every continuation of it.
\<close>

theorem try_parse_incremental:
  assumes "try_parse_from_buf buf = Some r" and "r \<noteq> Inr None"
  shows "try_parse_from_buf (buf @ ys) = Some r"
  using assms by (rule try_parse_append)

theorem try_parse_incremental_witness:
  "try_parse_from_buf ((replicate 56 0x7A @ [0x0d, 0x0a]) @ [0x01]) =
     Some (Inl (Protocol (ascii ''Invalid password hash: not hex digits'')))"
  by (rule try_parse_incremental, rule try_parse_bad_hash)
    (simp_all add: is_ascii_hexdigit_def)

text \<open>
  The peek window is large enough: the parser asks for more input only below 320 bytes, well
  under \<open>PEEK_SIZE\<close>, so a full window is always accepted or rejected.
\<close>

theorem try_parse_conclusive:
  assumes "try_parse_from_buf buf = Some (Inr None)"
  shows "length buf < 320 \<and> length buf < PEEK_SIZE"
  using try_parse_more_length [OF assms] by (simp add: PEEK_SIZE_def)

text \<open>The bound is reached: a request for a 255-byte domain, less its last byte.\<close>

theorem try_parse_conclusive_witness:
  "length (replicate 56 0x61 @ 0x0d # 0x0a # as_u8 Connect #
      0x03 # 255 # replicate 255 0x61 @ to_be (443 :: u16) @ [0x0d]) < 320 \<and>
   length (replicate 56 0x61 @ 0x0d # 0x0a # as_u8 Connect #
      0x03 # 255 # replicate 255 0x61 @ to_be (443 :: u16) @ [0x0d]) < PEEK_SIZE"
proof (rule try_parse_conclusive)
  have "utf8_valid (replicate 255 0x61)"
    by (rule utf8_valid_ascii) simp
  then have "parse_from_buf (0x03 # 255 # replicate 255 0x61 @ to_be (443 :: u16) @ [0x0d]) =
      Some (Inr (Domain (replicate 255 0x61) 443, Some 259))"
    by (simp add: parse_domain nth_append to_be_u16 from_be_def)
  then show "try_parse_from_buf (replicate 56 0x61 @ 0x0d # 0x0a # as_u8 Connect #
      0x03 # 255 # replicate 255 0x61 @ to_be (443 :: u16) @ [0x0d]) = Some (Inr None)"
    by (simp add: try_parse_address is_ascii_hexdigit_def del: as_u8.simps)
qed

text \<open>
  C10. The two header parsers agree: over any reader with the documented behaviour,
  \<open>Header::read_from\<close> returns a header exactly when \<open>Header::try_parse_from_buf\<close> does on the
  bytes of the stream, and leaves the stream just behind the header's wire form.
\<close>

theorem header_readers_agree:
  assumes "byte_stream_laws R vw eof" and "vw s = (bs, fin)"
  shows "(\<exists>t. header_read_from R s = (Ready (Inr h), t) \<and> vw t = (rest, fin)) \<longleftrightarrow>
    try_parse_from_buf bs = Some (Inr (Some h)) \<and> (\<exists>w. wire_header h w \<and> bs = w @ rest)"
proof -
  have "simulates vw (header_read_from R) (header_read_from (view_reader eof 0))"
    by (rule byte_stream.sim_header_read_from [OF byte_stream.intro [OF assms(1)]])
  from simulates_Ready_Inr_iff [OF this, of s h "(rest, fin)"]
  show ?thesis by (auto simp: assms(2) view_header_read_Inr_iff try_parse_Some_iff)
qed

theorem header_readers_agree_witness:
  "(\<exists>t. header_read_from (view_reader early_eof 0)
        (replicate 56 0x61 @ [0x0d, 0x0a, 1, 3, 1, 0x61, 0, 80, 0x0d, 0x0a, 7], Open) =
      (Ready (Inr \<lparr>h_password_hash = replicate 56 0x61, h_command = Connect,
         h_address = Domain [0x61] 80\<rparr>), t) \<and> id t = ([7], Open)) \<longleftrightarrow>
   try_parse_from_buf (replicate 56 0x61 @ [0x0d, 0x0a, 1, 3, 1, 0x61, 0, 80, 0x0d, 0x0a, 7]) =
     Some (Inr (Some \<lparr>h_password_hash = replicate 56 0x61, h_command = Connect,
         h_address = Domain [0x61] 80\<rparr>)) \<and>
   (\<exists>w. wire_header \<lparr>h_password_hash = replicate 56 0x61, h_command = Connect,
         h_address = Domain [0x61] 80\<rparr> w \<and>
      replicate 56 0x61 @ [0x0d, 0x0a, 1, 3, 1, 0x61, 0, 80, 0x0d, 0x0a, 7] = w @ [7])"
  by (rule header_readers_agree [OF slice_stream.laws]) simp

text \<open>
  With the documented shape of SHA-224 digests and of their lower-case hex encoding, a
  request is authenticated exactly when the hash it carries is, up to the case of its hex digits,
  the hash of one of the configured passwords.
\<close>

definition digest_laws :: "(bytes \<Rightarrow> bytes) \<Rightarrow> (bytes \<Rightarrow> rstring) \<Rightarrow> bool" where
  "digest_laws sha224 hex_encode \<longleftrightarrow> (\<forall>m. length (sha224 m) = 28 \<and>
     length (hex_encode (sha224 m)) = 56 \<and> list_all is_ascii_hexdigit (hex_encode (sha224 m)) \<and>
     map to_ascii_lowercase (hex_encode (sha224 m)) = hex_encode (sha224 m))"

theorem verify_password_digest:
  assumes "digest_laws sha224 hex_encode"
  shows "verify_password h (map (hash_password sha224 hex_encode) ps) \<longleftrightarrow>
    map to_ascii_lowercase (h_password_hash h) \<in> set (map (hash_password sha224 hex_encode) ps)"
  using assms
  by (force simp: verify_password_def hash_password_def digest_laws_def list_ex_iff
      eq_ignore_ascii_case_def PASSWORD_HEX_LEN_def)

theorem verify_password_digest_witness:
  "verify_password
     \<lparr>h_password_hash = replicate 56 0x46, h_command = Connect, h_address = Domain [] 0\<rparr>
     (map (hash_password (\<lambda>m. replicate 28 0xFF) (\<lambda>d. concat (map (\<lambda>b. [0x66, 0x66]) d))) [[]]) \<longleftrightarrow>
   map to_ascii_lowercase (replicate 56 0x46) \<in>
     set (map (hash_password (\<lambda>m. replicate 28 0xFF) (\<lambda>d. concat (map (\<lambda>b. [0x66, 0x66]) d))) [[]])"
proof -
  have "concat (map (\<lambda>b. [0x66, 0x66 :: u8]) (replicate n (x :: u8))) = replicate (2 * n) 0x66" for n x
    by (induction n) simp_all
  then have "digest_laws (\<lambda>m. replicate 28 0xFF) (\<lambda>d. concat (map (\<lambda>b. [0x66, 0x66]) d))"
    by (simp add: digest_laws_def to_ascii_lowercase_def is_ascii_hexdigit_def)
  from verify_password_digest [OF this, of
      "\<lparr>h_password_hash = replicate 56 0x46, h_command = Connect, h_address = Domain [] 0\<rparr>" "[[]]"]
  show ?thesis by simp
qed

text \<open>
  The shortest header the parser accepts has 65 bytes, not 68: a domain of length zero is an
  address to \<open>parse_from_buf\<close>, although \<open>Address::encode\<close> refuses to produce it.
\<close>

theorem empty_domain_accepted:
  "\<exists>buf h. length buf = 65 \<and> try_parse_from_buf buf = Some (Inr (Some h)) \<and>
     encode (h_address h) =
       Inl (Protocol (ascii ''Domain length must be between 1 and 255 bytes''))"
proof (intro exI conjI)
  let ?buf = "replicate 56 0x61 @ 0x0d # 0x0a # as_u8 Connect # 0x03 # 0 # [0, 80, 0x0d, 0x0a]"
  let ?h = "\<lparr>h_password_hash = replicate 56 0x61, h_command = Connect, h_address = Domain [] 80\<rparr>"
  show "length ?buf = 65" by simp
  show "try_parse_from_buf ?buf = Some (Inr (Some ?h))"
    by (simp add: try_parse_address parse_domain is_ascii_hexdigit_def from_be_def del: as_u8.simps)
  show "encode (h_address ?h) =
      Inl (Protocol (ascii ''Domain length must be between 1 and 255 bytes''))"
    by simp
qed

end
