(* ===== verification/Configs.thy ===== *)
theory Configs
  imports Headers
begin

text \<open>
  src/config.rs: the configuration, its defaults, how it is read from a file, and its validation.
  Reading the file, parsing TOML text into a table and testing whether a path exists are
  parameters; what the derived \<open>Deserialize\<close> makes of a table is modelled.
\<close>

section \<open>The configuration\<close>

record config =
  bind_addr :: rstring
  tls_cert :: rstring
  tls_key :: rstring
  passwords :: "rstring list"
  udp_bind_addr :: rstring
  log_level :: rstring
  tcp_timeout :: u64
  udp_timeout :: u64
  max_connections :: u64
  fallback_addr :: rstring

definition default_bind_addr :: rstring where "default_bind_addr = ascii ''0.0.0.0:443''"
definition default_log_level :: rstring where "default_log_level = ascii ''info''"
definition default_tcp_timeout :: u64 where "default_tcp_timeout = 300"
definition default_udp_timeout :: u64 where "default_udp_timeout = 60"
definition default_udp_bind_addr :: rstring where "default_udp_bind_addr = ascii ''0.0.0.0:0''"
definition default_max_connections :: u64 where "default_max_connections = 1024"
definition default_fallback_addr :: rstring where "default_fallback_addr = ascii ''127.0.0.1:80''"

lemmas config_defaults =
  default_bind_addr_def default_log_level_def default_tcp_timeout_def default_udp_timeout_def
  default_udp_bind_addr_def default_max_connections_def default_fallback_addr_def

section \<open>Deserialization\<close>

text \<open>
  The values of TOML the configuration has fields for; its integers are signed 64-bit. A field
  absent from the table takes its \<open>#[serde(default = ...)]\<close>, or fails when it has none; a value
  of the wrong type or an integer that does not fit fails. Other keys are ignored.
\<close>

datatype toml_value = TString rstring | TInteger int | TArray "toml_value list" | TOther

type_synonym toml_table = "rstring \<Rightarrow> toml_value option"

fun de_string :: "toml_value \<Rightarrow> rstring option" where
  "de_string (TString s) = Some s"
| "de_string _ = None"

fun de_u64 :: "toml_value \<Rightarrow> u64 option" where
  "de_u64 (TInteger n) = (if 0 \<le> n \<and> n < 2 ^ 63 then Some (of_int n) else None)"
| "de_u64 _ = None"

fun de_strings :: "toml_value \<Rightarrow> rstring list option" where
  "de_strings (TArray vs) = those (map de_string vs)"
| "de_strings _ = None"

definition field :: "toml_table \<Rightarrow> string \<Rightarrow> (toml_value \<Rightarrow> 'a option) \<Rightarrow> 'a option \<Rightarrow> 'a option" where
  "field table key de dflt = (case table (ascii key) of None \<Rightarrow> dflt | Some v \<Rightarrow> de v)"

definition config_from_table :: "toml_table \<Rightarrow> config option" where
  "config_from_table t = do {
     bind_addr \<leftarrow> field t ''bind_addr'' de_string (Some default_bind_addr);
     tls_cert \<leftarrow> field t ''tls_cert'' de_string None;
     tls_key \<leftarrow> field t ''tls_key'' de_string None;
     passwords \<leftarrow> field t ''passwords'' de_strings None;
     udp_bind_addr \<leftarrow> field t ''udp_bind_addr'' de_string (Some default_udp_bind_addr);
     log_level \<leftarrow> field t ''log_level'' de_string (Some default_log_level);
     tcp_timeout \<leftarrow> field t ''tcp_timeout'' de_u64 (Some default_tcp_timeout);
     udp_timeout \<leftarrow> field t ''udp_timeout'' de_u64 (Some default_udp_timeout);
     max_connections \<leftarrow> field t ''max_connections'' de_u64 (Some default_max_connections);
     fallback_addr \<leftarrow> field t ''fallback_addr'' de_string (Some default_fallback_addr);
     Some \<lparr>bind_addr = bind_addr, tls_cert = tls_cert, tls_key = tls_key, passwords = passwords,
       udp_bind_addr = udp_bind_addr, log_level = log_level, tcp_timeout = tcp_timeout,
       udp_timeout = udp_timeout, max_connections = max_connections,
       fallback_addr = fallback_addr\<rparr>
   }"

section \<open>Validation\<close>

definition validate_host_port :: "rstring \<Rightarrow> rstring \<Rightarrow> unit res" where
  "validate_host_port field_name value =
     (if parse_socket_addr value \<noteq> None then Inr ()
      else
        (case rsplit_once 58 value of
           None \<Rightarrow> Inl (Config (ascii ''Invalid '' @ field_name @
             ascii '': expected host:port or socket address, got '' @ value))
         | Some (host, port) \<Rightarrow>
             if host = [] then
               Inl (Config (ascii ''Invalid '' @ field_name @ ascii '': host is empty ('' @
                 value @ ascii '')''))
             else if parse_u16 port = None then
               Inl (Config (ascii ''Invalid '' @ field_name @ ascii '': port is invalid ('' @
                 value @ ascii '')''))
             else Inr ()))"

definition validate :: "(rstring \<Rightarrow> bool) \<Rightarrow> config \<Rightarrow> unit res" where
  "validate exists c =
     (if passwords c = [] then
        Inl (Config (ascii ''At least one password must be configured''))
      else if parse_socket_addr (bind_addr c) = None then
        Inl (Config (ascii ''Invalid bind_addr socket address: '' @ bind_addr c))
      else if \<not> exists (tls_cert c) then
        Inl (Config (ascii ''TLS certificate file not found: '' @ tls_cert c))
      else if \<not> exists (tls_key c) then
        Inl (Config (ascii ''TLS key file not found: '' @ tls_key c))
      else if \<not> list_all (\<lambda>p. length p = 56 \<and> list_all is_ascii_hexdigit p) (passwords c) then
        Inl (Config (ascii ''All passwords must be SHA-224 hex strings (56 hex chars)''))
      else if parse_socket_addr (udp_bind_addr c) = None then
        Inl (Config (ascii ''Invalid udp_bind_addr socket address: '' @ udp_bind_addr c))
      else bind_res (validate_host_port (ascii ''fallback_addr'') (fallback_addr c)) (\<lambda>_. Inr ()))"

text \<open>
  The file system and the \<open>toml\<close> crate: reading a file as UTF-8 text, parsing it into a table,
  and the message of a \<open>toml\<close> error for that text.
\<close>

record config_env =
  read_to_string :: "rstring \<Rightarrow> io_error + rstring"
  toml_parse :: "rstring \<Rightarrow> toml_table option"
  toml_error :: "rstring \<Rightarrow> rstring"
  path_exists :: "rstring \<Rightarrow> bool"

definition config_from_file :: "config_env \<Rightarrow> rstring \<Rightarrow> config res" where
  "config_from_file env path =
     (case read_to_string env path of
        Inl e \<Rightarrow> Inl (Config (ascii ''Failed to read config file: '' @ io_message e))
      | Inr content \<Rightarrow>
          (case Option.bind (toml_parse env content) config_from_table of
             None \<Rightarrow> Inl (Config (ascii ''Failed to parse config: '' @ toml_error env content))
           | Some config \<Rightarrow>
               bind_res (validate (path_exists env) config) (\<lambda>_. Inr config)))"

section \<open>Printed ports are parsed back\<close>

lemma digit_unsigned: "0 \<le> d \<Longrightarrow> d < 10 \<Longrightarrow> uint (digit d) = 48 + d"
  by (simp add: digit_def unsigned_of_int take_bit_int_eq_self del: of_int_add)

lemma to_digit_digit: "0 \<le> d \<Longrightarrow> d < 10 \<Longrightarrow> to_digit 10 (digit d) = Some d"
  by (simp add: to_digit_def word_le_def digit_unsigned)

lemma parse_digits_append:
  "parse_digits tmax acc (xs @ ys) =
     Option.bind (parse_digits tmax acc xs) (\<lambda>a. parse_digits tmax a ys)"
  by (induction xs arbitrary: acc) (auto split: option.splits)

lemma parse_digits_show:
  "r = 10 \<Longrightarrow> 0 \<le> n \<Longrightarrow> n \<le> tmax \<Longrightarrow> parse_digits tmax 0 (show_radix r n) = Some n"
proof (induction r n rule: show_radix.induct)
  case (1 r n)
  show ?case
  proof (cases "n < 10")
    case True
    with 1 show ?thesis by (simp add: show_radix.simps [of 10] to_digit_digit)
  next
    case False
    then have "n div 10 \<le> n" by presburger
    with 1 False have "parse_digits tmax 0 (show_radix 10 (n div 10)) = Some (n div 10)"
      by simp
    moreover have "n div 10 * 10 + n mod 10 = n" by simp
    ultimately show ?thesis
      using 1(2-4) False
      by (subst show_radix.simps) (simp add: parse_digits_append to_digit_digit)
  qed
qed

lemma show_radix_digits:
  "r = 10 \<Longrightarrow> 0 \<le> n \<Longrightarrow> \<forall>b \<in> set (show_radix r n). 48 \<le> uint b \<and> uint b \<le> 57"
proof (induction r n rule: show_radix.induct)
  case (1 r n)
  show ?case
  proof (cases "n < 10")
    case True
    with 1 show ?thesis by (simp add: show_radix.simps [of 10] digit_unsigned)
  next
    case False
    with 1 have "\<forall>b \<in> set (show_radix 10 (n div 10)). 48 \<le> uint b \<and> uint b \<le> 57"
      by simp
    with 1(2) False show ?thesis
      by (subst show_radix.simps) (simp add: digit_unsigned)
  qed
qed

lemma show_radix_not_Nil: "show_radix r n \<noteq> []"
  by (subst show_radix.simps) simp

lemma show_dec_digits: "0 \<le> n \<Longrightarrow> b \<in> set (show_dec n) \<Longrightarrow> 48 \<le> uint b \<and> uint b \<le> 57"
  using show_radix_digits [of 10 n] by (auto simp: show_dec_def)

lemma parse_u16_show_dec: "parse_u16 (show_dec (uint p)) = Some p"
proof -
  obtain b bs where sh: "show_dec (uint p) = b # bs"
    using show_radix_not_Nil by (metis list.exhaust show_dec_def)
  with show_dec_digits [of "uint p" b] sh have "b \<noteq> 43" by auto
  moreover have "uint p \<le> 65535" using uint_bounded [of p] by simp
  with parse_digits_show [of 10 "uint p" 65535] have "parse_digits 65535 0 (b # bs) = Some (uint p)"
    by (simp add: sh [symmetric] show_dec_def)
  ultimately show ?thesis by (simp add: parse_u16_def sh)
qed

lemma rsplit_once_None_iff: "rsplit_once c s = None \<longleftrightarrow> c \<notin> set s"
  by (induction s) (auto split: option.splits)

lemma rsplit_once_Some_iff:
  "rsplit_once c s = Some (l, r) \<longleftrightarrow> s = l @ c # r \<and> c \<notin> set r"
proof (induction s arbitrary: l)
  case Nil
  then show ?case by simp
next
  case (Cons b bs)
  show ?case
  proof (cases "rsplit_once c bs")
    case None
    then have "c \<notin> set bs" by (simp add: rsplit_once_None_iff)
    with None show ?thesis by (cases l) auto
  next
    case (Some lr)
    then have "c \<in> set bs" by (metis option.distinct(1) rsplit_once_None_iff)
    with Some Cons.IH show ?thesis by (cases l) (auto split: prod.splits)
  qed
qed

section \<open>What validation guarantees\<close>

text \<open>The invariant of a configuration the server starts with.\<close>

definition host_port_ok :: "rstring \<Rightarrow> bool" where
  "host_port_ok value \<longleftrightarrow> parse_socket_addr value \<noteq> None \<or>
     (\<exists>host port. value = host @ 58 # port \<and> host \<noteq> [] \<and> 58 \<notin> set port \<and> parse_u16 port \<noteq> None)"

definition config_ok :: "(rstring \<Rightarrow> bool) \<Rightarrow> config \<Rightarrow> bool" where
  "config_ok exists c \<longleftrightarrow> passwords c \<noteq> [] \<and>
     (\<forall>p \<in> set (passwords c). length p = 56 \<and> list_all is_ascii_hexdigit p) \<and>
     parse_socket_addr (bind_addr c) \<noteq> None \<and> parse_socket_addr (udp_bind_addr c) \<noteq> None \<and>
     exists (tls_cert c) \<and> exists (tls_key c) \<and> host_port_ok (fallback_addr c)"

lemma validate_host_port_iff: "validate_host_port f value = Inr () \<longleftrightarrow> host_port_ok value"
proof (cases "rsplit_once 58 value")
  case None
  then have "58 \<notin> set value" by (simp add: rsplit_once_None_iff)
  with None show ?thesis by (auto simp: validate_host_port_def host_port_ok_def)
next
  case (Some lr)
  then obtain l r where lr: "rsplit_once 58 value = Some (l, r)" by (cases lr) simp
  then have "(\<exists>host port. value = host @ 58 # port \<and> host \<noteq> [] \<and> 58 \<notin> set port \<and> parse_u16 port \<noteq> None)
      \<longleftrightarrow> l \<noteq> [] \<and> parse_u16 r \<noteq> None"
    by (metis option.inject prod.inject rsplit_once_Some_iff)
  with lr show ?thesis by (simp add: validate_host_port_def host_port_ok_def)
qed

lemma validate_iff: "validate ex c = Inr () \<longleftrightarrow> config_ok ex c"
  using validate_host_port_iff [of "ascii ''fallback_addr''" "fallback_addr c"]
  by (auto simp: validate_def config_ok_def list_all_iff bind_res_Inr_iff)

lemma validate_error: "validate ex c = Inl e \<Longrightarrow> \<exists>m. e = Config m"
  by (auto simp: validate_def validate_host_port_def bind_res_def
      split: if_splits option.splits sum.splits prod.splits)

lemma config_from_file_Inr_iff:
  "config_from_file env path = Inr c \<longleftrightarrow>
   (\<exists>content table. read_to_string env path = Inr content \<and> toml_parse env content = Some table \<and>
      config_from_table table = Some c \<and> config_ok (path_exists env) c)"
  by (auto simp: config_from_file_def bind_res_Inr_iff validate_iff [symmetric]
      split: sum.splits option.splits bind_splits)

section \<open>Properties\<close>

text \<open>
  C33. \<open>Config::from_file\<close> returns a configuration exactly when the file is readable, its text is
  a table the configuration can be deserialized from, and the result satisfies the invariant: at
  least one password, all of them 56 hex digits, both bind addresses socket addresses, the
  certificate and key files present, the fallback a socket address or \<open>host:port\<close>. Every
  failure is a configuration error.
\<close>

theorem config_from_file_exact:
  "(\<forall>c. config_from_file env path = Inr c \<longleftrightarrow>
      (\<exists>content table. read_to_string env path = Inr content \<and>
         toml_parse env content = Some table \<and> config_from_table table = Some c \<and>
         config_ok (path_exists env) c)) \<and>
   config_from_file env path \<in> range Inr \<union> Inl ` range Config"
  by (auto simp: config_from_file_Inr_iff)
    (auto simp: config_from_file_def bind_res_def dest: validate_error
      split: sum.splits option.splits bind_splits)

text \<open>
  \<open>validate_host_port\<close> accepts exactly socket addresses and non-empty hosts followed by a
  colon and a port number; in particular every printed port after a non-empty host.
\<close>

theorem host_port_exact:
  "(validate_host_port f value = Inr () \<longleftrightarrow> host_port_ok value) \<and>
   validate_host_port f ((b # host) @ ascii '':'' @ show_dec (uint (p :: u16))) = Inr ()"
proof
  have "x \<noteq> 58" if "x \<in> set (show_dec (uint p))" for x
    using show_dec_digits [OF _ that] by auto
  then have "58 \<notin> set (show_dec (uint p))" by blast
  then have "host_port_ok ((b # host) @ 58 # show_dec (uint p))"
    unfolding host_port_ok_def using parse_u16_show_dec [of p]
    by (intro disjI2 exI [of _ "b # host"] exI [of _ "show_dec (uint p)"]) simp
  then show "validate_host_port f ((b # host) @ ascii '':'' @ show_dec (uint p)) = Inr ()"
    by (simp add: validate_host_port_iff ascii_Cons)
qed (rule validate_host_port_iff)

text \<open>
  Under a validated configuration no password is dead: a request is authenticated exactly when
  its hash equals a configured one up to the case of the hex digits; the length test in
  \<open>verify_password\<close> never discards a configured password.
\<close>

theorem validated_passwords_count:
  assumes "validate ex c = Inr ()"
  shows "verify_password h (passwords c) \<longleftrightarrow>
    (\<exists>p \<in> set (passwords c). eq_ignore_ascii_case p (h_password_hash h))"
  using assms
  by (auto simp: validate_iff config_ok_def verify_password_def list_ex_iff PASSWORD_HEX_LEN_def)

definition example_config :: config where
  "example_config = \<lparr>bind_addr = default_bind_addr, tls_cert = [99], tls_key = [107],
     passwords = [replicate 56 0x61], udp_bind_addr = default_udp_bind_addr,
     log_level = default_log_level, tcp_timeout = default_tcp_timeout,
     udp_timeout = default_udp_timeout, max_connections = default_max_connections,
     fallback_addr = default_fallback_addr\<rparr>"

lemma parse_defaults:
  "parse_socket_addr default_bind_addr = Some (V4 (Ipv4Addr 0 0 0 0) 443)"
  "parse_socket_addr default_udp_bind_addr = Some (V4 (Ipv4Addr 0 0 0 0) 0)"
  "parse_socket_addr default_fallback_addr = Some (V4 (Ipv4Addr 127 0 0 1) 80)"
  by code_simp+

lemma example_config_ok: "config_ok (\<lambda>_. True) example_config"
  by (simp add: config_ok_def example_config_def parse_defaults host_port_ok_def
      is_ascii_hexdigit_def)

theorem validated_passwords_count_witness:
  "verify_password \<lparr>h_password_hash = replicate 56 0x41, h_command = Connect, h_address = Domain [97] 1\<rparr>
     (passwords example_config) \<longleftrightarrow>
   (\<exists>p \<in> set (passwords example_config).
      eq_ignore_ascii_case p (h_password_hash
        \<lparr>h_password_hash = replicate 56 0x41, h_command = Connect, h_address = Domain [97] 1\<rparr>))"
  by (rule validated_passwords_count [where ex = "\<lambda>_. True"])
    (simp add: validate_iff example_config_ok)

text \<open>
  The defaults are usable: a table with only the three mandatory fields is deserialized to a
  configuration with the documented defaults, and it passes validation whenever the files exist
  and the passwords are well formed.
\<close>

theorem minimal_config_accepted:
  "config_from_table [ascii ''tls_cert'' \<mapsto> TString cert, ascii ''tls_key'' \<mapsto> TString key,
     ascii ''passwords'' \<mapsto> TArray (map TString pws)] =
   Some \<lparr>bind_addr = ascii ''0.0.0.0:443'', tls_cert = cert, tls_key = key, passwords = pws,
     udp_bind_addr = ascii ''0.0.0.0:0'', log_level = ascii ''info'', tcp_timeout = 300,
     udp_timeout = 60, max_connections = 1024, fallback_addr = ascii ''127.0.0.1:80''\<rparr> \<and>
   (validate ex \<lparr>bind_addr = ascii ''0.0.0.0:443'', tls_cert = cert, tls_key = key, passwords = pws,
     udp_bind_addr = ascii ''0.0.0.0:0'', log_level = ascii ''info'', tcp_timeout = 300,
     udp_timeout = 60, max_connections = 1024, fallback_addr = ascii ''127.0.0.1:80''\<rparr> = Inr () \<longleftrightarrow>
    pws \<noteq> [] \<and> ex cert \<and> ex key \<and>
    list_all (\<lambda>p. length p = 56 \<and> list_all is_ascii_hexdigit p) pws)"
proof -
  have strings: "those (map (de_string \<circ> TString) pws) = Some pws"
    by (induction pws) simp_all
  show ?thesis
    using parse_defaults
    by (auto simp: config_from_table_def field_def eval_simps strings config_defaults validate_iff
        config_ok_def host_port_ok_def list_all_iff)
qed

end
