(* ===== verification/UdpFrames.thy ===== *)
theory UdpFrames
  imports Headers
begin

text \<open>
  src/proxy/udp.rs, the frames of a UDP association inside the client's stream
  (\<open>address length CRLF payload\<close>): reading one, building one, and their wire format.
\<close>

section \<open>The code\<close>

definition UDP_BUFFER_SIZE :: nat where "UDP_BUFFER_SIZE = 65535"
definition UDP_MAX_PAYLOAD_LEN :: nat where "UDP_MAX_PAYLOAD_LEN = 65535"
definition UDP_CRLF :: bytes where "UDP_CRLF = [0x0d, 0x0a]"

record udp_frame =
  f_address :: address
  f_payload :: bytes

definition read_target_address ::
  "'s async_reader \<Rightarrow> u8 \<Rightarrow> ('s, trojan_error, address) io" where
  "read_target_address R atyp =
     (if atyp = TYPE_IPV4 then
        await (io_try (rd_exact R 4)) (\<lambda>octets.
        await (io_try (rd_u16 R)) (\<lambda>port.
        ret (IPv4 (socket_addr_new (IpV4 (ipv4_from_octets octets)) port))))
      else if atyp = TYPE_DOMAIN then
        await (io_try (rd_u8 R)) (\<lambda>len.
        if unat len = 0 then throw (Protocol (ascii ''Invalid domain length in UDP frame''))
        else
          await (io_try (rd_exact R (unat len))) (\<lambda>domain_buf.
          await (if utf8_valid domain_buf then ret domain_buf else throw InvalidUtf8) (\<lambda>domain.
          await (io_try (rd_u16 R)) (\<lambda>port.
          ret (Domain domain port)))))
      else if atyp = TYPE_IPV6 then
        await (io_try (rd_exact R 16)) (\<lambda>octets.
        await (io_try (rd_u16 R)) (\<lambda>port.
        ret (IPv6 (socket_addr_new (IpV6 (ipv6_from_octets octets)) port))))
      else throw (InvalidAddressType atyp))"

text \<open>The part of \<open>read_udp_frame\<close> behind the address type.\<close>

definition read_udp_body :: "'s async_reader \<Rightarrow> u8 \<Rightarrow> ('s, trojan_error, udp_frame) io" where
  "read_udp_body R atyp =
     await (read_target_address R atyp) (\<lambda>address.
     await (io_try (rd_u16 R)) (\<lambda>payload_len.
     await (io_try (rd_exact R 2)) (\<lambda>crlf.
     if crlf \<noteq> UDP_CRLF then throw (Protocol (ascii ''Invalid UDP CRLF delimiter''))
     else
       await (io_try (rd_exact R (unat payload_len))) (\<lambda>payload.
       ret \<lparr>f_address = address, f_payload = payload\<rparr>))))"

definition read_udp_frame :: "'s async_reader \<Rightarrow> ('s, trojan_error, udp_frame option) io" where
  "read_udp_frame R = (\<lambda>s.
     case rd_u8 R s of
       (Ready (Inr atyp), s) \<Rightarrow> await (read_udp_body R atyp) (\<lambda>frame. ret (Some frame)) s
     | (Ready (Inl e), s) \<Rightarrow>
         if io_kind e = UnexpectedEof then ret None s else throw (Io e) s
     | (Pending, s) \<Rightarrow> (Pending, s))"

text \<open>\<open>payload.len() as u16\<close> keeps the low sixteen bits.\<close>

definition build_udp_frame :: "socket_addr \<Rightarrow> bytes \<Rightarrow> bytes res" where
  "build_udp_frame addr payload =
     (if UDP_MAX_PAYLOAD_LEN < length payload then
        Inl (Protocol (ascii ''UDP payload exceeds protocol limit''))
      else
        (let frame = (case addr of
             V4 ip port \<Rightarrow> [TYPE_IPV4] @ ipv4_octets ip @ to_be port
           | V6 ip port flow scope \<Rightarrow> [TYPE_IPV6] @ ipv6_octets ip @ to_be port)
         in Inr (frame @ to_be (of_nat (length payload) :: u16) @ UDP_CRLF @ payload)))"

text \<open>Name resolution is tokio's \<open>lookup_host\<close>, over the state of the network.\<close>

definition resolve_target ::
  "(rstring \<Rightarrow> u16 \<Rightarrow> ('u, io_error, socket_addr list) io) \<Rightarrow> address \<Rightarrow>
   ('u, trojan_error, socket_addr) io" where
  "resolve_target lookup_host address = (\<lambda>u.
     case address of
       IPv4 addr \<Rightarrow> ret addr u
     | IPv6 addr \<Rightarrow> ret addr u
     | Domain domain port \<Rightarrow>
         (case lookup_host domain port u of
            (Pending, u) \<Rightarrow> (Pending, u)
          | (Ready (Inl e), u) \<Rightarrow>
              throw (RemoteConnectFailed (ascii ''failed to resolve '' @ domain @ ascii '':'' @
                show_dec (uint port) @ ascii '' ('' @ io_message e @ ascii '')'')) u
          | (Ready (Inr addrs), u) \<Rightarrow>
              (case addrs of
                 a # _ \<Rightarrow> ret a u
               | [] \<Rightarrow> throw (RemoteConnectFailed (ascii ''DNS resolved no addresses for '' @ domain @
                   ascii '':'' @ show_dec (uint port))) u)))"

section \<open>The wire format\<close>

inductive wire_frame :: "udp_frame \<Rightarrow> bytes \<Rightarrow> bool" where
  wire_frameI: "wire_address a w \<Longrightarrow> (\<And>p. a \<noteq> Domain [] p) \<Longrightarrow> length payload < 65536 \<Longrightarrow>
    wire_frame \<lparr>f_address = a, f_payload = payload\<rparr>
      (w @ to_be (of_nat (length payload) :: u16) @ [0x0d, 0x0a] @ payload)"

lemma wire_frame_not_Nil: "wire_frame f w \<Longrightarrow> w \<noteq> []"
  by (erule wire_frame.cases) (auto dest: wire_address_length_bounds)

lemma unat_of_nat_u16 [simp]: "n < 65536 \<Longrightarrow> unat (of_nat n :: u16) = n"
  by (simp add: unat_of_nat take_bit_eq_mod)

text \<open>Behind its first byte an address is read as \<open>address_read_from\<close> reads it.\<close>

lemma view_target_address_wire:
  assumes "wire_address a (t # w)" and "\<And>p. a \<noteq> Domain [] p"
  shows "read_target_address (view_reader eof k) t (w @ rest, fin) = (Ready (Inr a), (rest, fin))"
  using assms(1)
proof cases
  case (wire_domain d p)
  with assms(2) have "d \<noteq> []" by auto
  with wire_domain show ?thesis
    by (simp add: read_target_address_def wire_simps)
qed (simp_all add: read_target_address_def wire_simps)

lemma view_target_address_complete:
  assumes "read_target_address (view_reader eof k) t (bs, fin) = (Ready (Inr a), v)"
  shows "\<exists>w rest. wire_address a (t # w) \<and> (\<forall>p. a \<noteq> Domain [] p) \<and> bs = w @ rest \<and> v = (rest, fin)"
proof -
  from assms consider
      (ip4) buf q rest where "length buf = 4" "length q = 2" "t = 0x01" "bs = (buf @ q) @ rest"
        "a = IPv4 (V4 (ipv4_from_octets buf) (from_be q))" "v = (rest, fin)"
    | (dom) len d q rest where "length d = unat len" "utf8_valid d" "length q = 2" "d \<noteq> []"
        "t = 0x03" "bs = (len # d @ q) @ rest" "a = Domain d (from_be q)" "v = (rest, fin)"
    | (ip6) buf q rest where "length buf = 16" "length q = 2" "t = 0x04" "bs = (buf @ q) @ rest"
        "a = IPv6 (V6 (ipv6_from_octets buf) (from_be q) 0 0)" "v = (rest, fin)"
    unfolding read_target_address_def view_reader_sel
    by (fastforce simp: read_Inr_iffs length_Suc_conv split: if_splits)
  then show ?thesis
  proof cases
    case ip4
    with wire_ipv4_octets [of buf q] show ?thesis by blast
  next
    case dom
    with wire_domain_bytes [of d len q] show ?thesis by blast
  next
    case ip6
    with wire_ipv6_octets [of buf q] show ?thesis by blast
  qed
qed

lemma view_payload:
  assumes "await (io_try (view_int eof 2)) (\<lambda>payload_len.
      await (io_try (view_exact eof 2)) (\<lambda>crlf.
      if crlf \<noteq> UDP_CRLF then throw (Protocol (ascii ''Invalid UDP CRLF delimiter''))
      else await (io_try (view_exact eof (unat (payload_len :: u16)))) (\<lambda>payload.
        ret \<lparr>f_address = a, f_payload = payload\<rparr>))) (tail, fin) = (Ready (Inr f), v)"
  obtains q payload rest where
    "length q = 2" "length payload = unat (from_be q :: u16)"
    "tail = q @ UDP_CRLF @ payload @ rest"
    "f = \<lparr>f_address = a, f_payload = payload\<rparr>" "v = (rest, fin)"
proof -
  have "\<exists>q payload rest. length q = 2 \<and> length payload = unat (from_be q :: u16) \<and>
      tail = q @ UDP_CRLF @ payload @ rest \<and>
      f = \<lparr>f_address = a, f_payload = payload\<rparr> \<and> v = (rest, fin)"
    using assms
    apply (simp only: read_Inr_iffs)
    apply clarify
    apply (simp add: read_Inr_iffs split: if_splits)
    apply blast
    done
  then show thesis by (elim exE conjE) (rule that)
qed

lemma view_body_Inr_iff:
  "read_udp_body (view_reader eof k) t (bs, fin) = (Ready (Inr f), v) \<longleftrightarrow>
   (\<exists>w rest. wire_frame f (t # w) \<and> bs = w @ rest \<and> v = (rest, fin))"
proof
  assume body: "read_udp_body (view_reader eof k) t (bs, fin) = (Ready (Inr f), v)"
  then obtain a v1 where "read_target_address (view_reader eof k) t (bs, fin) = (Ready (Inr a), v1)"
    unfolding read_udp_body_def by (auto simp: await_Ready_Inr_iff)
  moreover from view_target_address_complete [OF this] obtain w tail where
    addr: "wire_address a (t # w)" "\<And>p. a \<noteq> Domain [] p" "bs = w @ tail" "v1 = (tail, fin)"
    by blast
  ultimately have "await (io_try (view_int eof 2)) (\<lambda>payload_len.
      await (io_try (view_exact eof 2)) (\<lambda>crlf.
      if crlf \<noteq> UDP_CRLF then throw (Protocol (ascii ''Invalid UDP CRLF delimiter''))
      else await (io_try (view_exact eof (unat (payload_len :: u16)))) (\<lambda>payload.
        ret \<lparr>f_address = a, f_payload = payload\<rparr>))) (tail, fin) = (Ready (Inr f), v)"
    using body unfolding read_udp_body_def view_reader_sel by (simp add: await_Ready_Inr)
  then obtain q payload rest where q: "length q = 2" and
    len: "length payload = unat (from_be q :: u16)" and
    tail: "tail = q @ UDP_CRLF @ payload @ rest" and
    f: "f = \<lparr>f_address = a, f_payload = payload\<rparr>" "v = (rest, fin)"
    by (rule view_payload)
  from q have "to_be (from_be q :: u16) = q"
    by (auto simp: numeral_2_eq_2 length_Suc_conv)
  with len have "to_be (of_nat (length payload) :: u16) = q" by simp
  moreover have "length payload < 65536"
    using unsigned_less [of "from_be q :: u16", where 'a = nat] len by simp
  ultimately show "\<exists>w rest. wire_frame f (t # w) \<and> bs = w @ rest \<and> v = (rest, fin)"
    using wire_frameI [OF addr(1,2), of payload] addr(3) tail f
    by (intro exI [of _ "w @ q @ [0x0d, 0x0a] @ payload"] exI [of _ rest]) (simp add: UDP_CRLF_def)
next
  assume "\<exists>w rest. wire_frame f (t # w) \<and> bs = w @ rest \<and> v = (rest, fin)"
  then obtain w' rest where f: "wire_frame f (t # w')" and "bs = w' @ rest" "v = (rest, fin)"
    by blast
  with f show "read_udp_body (view_reader eof k) t (bs, fin) = (Ready (Inr f), v)"
  proof cases
    case (wire_frameI a w payload)
    then obtain u where "w = t # u"
      by (cases w) (auto dest: wire_address_length_bounds)
    with wire_frameI \<open>bs = w' @ rest\<close> \<open>v = (rest, fin)\<close> show ?thesis
      by (simp add: read_udp_body_def view_target_address_wire await_Ready_Inr wire_simps
          UDP_CRLF_def view_exact_def)
  qed
qed

lemma view_frame_Some_iff:
  "read_udp_frame (view_reader eof k) (bs, fin) = (Ready (Inr (Some f)), v) \<longleftrightarrow>
   (\<exists>w rest. wire_frame f w \<and> bs = w @ rest \<and> v = (rest, fin))"
proof (cases bs)
  case Nil
  then show ?thesis
    by (auto simp: read_udp_frame_def view_int_def view_exact_def await_def short_read_def
        split: stream_end.splits dest: wire_frame_not_Nil)
next
  case (Cons b xs)
  have "read_udp_frame (view_reader eof k) (bs, fin) = (Ready (Inr (Some f)), v) \<longleftrightarrow>
      read_udp_body (view_reader eof k) b (xs, fin) = (Ready (Inr f), v)"
    by (cases v) (auto simp: read_udp_frame_def Cons wire_simps await_Ready_Inr_iff)
  also have "\<dots> \<longleftrightarrow> (\<exists>w rest. wire_frame f (b # w) \<and> xs = w @ rest \<and> v = (rest, fin))"
    by (rule view_body_Inr_iff)
  also have "\<dots> \<longleftrightarrow> (\<exists>w rest. wire_frame f w \<and> bs = w @ rest \<and> v = (rest, fin))"
  proof
    assume "\<exists>w rest. wire_frame f w \<and> bs = w @ rest \<and> v = (rest, fin)"
    then obtain w rest where w: "wire_frame f w" "bs = w @ rest" "v = (rest, fin)" by blast
    then obtain w' where "w = b # w'" "xs = w' @ rest"
      using wire_frame_not_Nil Cons by (cases w) auto
    with w show "\<exists>w rest. wire_frame f (b # w) \<and> xs = w @ rest \<and> v = (rest, fin)" by blast
  next
    assume "\<exists>w rest. wire_frame f (b # w) \<and> xs = w @ rest \<and> v = (rest, fin)"
    then obtain w rest where "wire_frame f (b # w)" "xs = w @ rest" "v = (rest, fin)" by blast
    then show "\<exists>w rest. wire_frame f w \<and> bs = w @ rest \<and> v = (rest, fin)"
      by (intro exI [of _ "b # w"] exI [of _ rest]) (simp add: Cons)
  qed
  finally show ?thesis .
qed

lemma view_frame_None_iff:
  "fst (read_udp_frame (view_reader eof k) (bs, fin)) = Ready (Inr None) \<longleftrightarrow>
   bs = [] \<and> (fin = Closed \<and> io_kind eof = UnexpectedEof \<or>
     (\<exists>e. fin = Broken e \<and> io_kind e = UnexpectedEof))"
proof (cases bs)
  case Nil
  then show ?thesis
    by (auto simp: read_udp_frame_def view_int_def view_exact_def await_def short_read_def
        split: stream_end.splits)
next
  case (Cons b xs)
  have "fst (await m (\<lambda>x. ret (Some x)) s) \<noteq> Ready (Inr None)" for m s
    by (auto simp: await_def split: prod.splits poll.splits sum.splits)
  with Cons show ?thesis by (simp add: read_udp_frame_def wire_simps)
qed

section \<open>Waiting for more\<close>

text \<open>
  A reader that gets to a result on a stream that is still open gets to the same result when more
  bytes follow; so one that waits for more has waited before they arrived.
\<close>

definition settled :: "(view, 'e, 'a) io \<Rightarrow> bool" where
  "settled m \<longleftrightarrow> (\<forall>bs new r v. m (bs, Open) = (Ready r, v) \<longrightarrow>
     (\<exists>rest. v = (rest, Open) \<and> m (bs @ new, Open) = (Ready r, (rest @ new, Open))))"

lemma settledD:
  "settled m \<Longrightarrow> m (bs, Open) = (Ready r, v) \<Longrightarrow>
   \<exists>rest. v = (rest, Open) \<and> m (bs @ new, Open) = (Ready r, (rest @ new, Open))"
  unfolding settled_def by blast

lemma settled_ret [sim_intros]: "settled (ret x)"
  by (simp add: settled_def ret_def)

lemma settled_throw [sim_intros]: "settled (throw e)"
  by (simp add: settled_def throw_def)

lemma settled_if [sim_intros]: "settled m \<Longrightarrow> settled n \<Longrightarrow> settled (if b then m else n)"
  by simp

lemma settled_exact [sim_intros]: "settled (view_exact eof n)"
  by (auto simp: settled_def view_exact_def short_read_def split: if_splits)

lemma settled_io_try [sim_intros]:
  assumes "settled m"
  shows "settled (io_try m)"
  unfolding settled_def
proof (intro allI impI)
  fix bs new r v
  assume "io_try m (bs, Open) = (Ready r, v)"
  then obtain q where "m (bs, Open) = (Ready q, v)" "r = from_io q"
    by (auto simp: io_try_Ready_iff)
  with settledD [OF assms, of bs q v new]
  show "\<exists>rest. v = (rest, Open) \<and> io_try m (bs @ new, Open) = (Ready r, (rest @ new, Open))"
    by (auto simp: io_try_Ready_iff)
qed

lemma settled_await [sim_intros]:
  assumes m: "settled m" and f: "\<And>x. settled (f x)"
  shows "settled (await m f)"
  unfolding settled_def
proof (intro allI impI)
  fix bs new r v
  assume run: "await m f (bs, Open) = (Ready r, v)"
  then obtain q v1 where q: "m (bs, Open) = (Ready q, v1)"
    by (auto simp: await_def split: prod.splits poll.splits)
  from settledD [OF m this, of new] obtain rest where
    on: "v1 = (rest, Open)" "m (bs @ new, Open) = (Ready q, (rest @ new, Open))" by blast
  show "\<exists>rest. v = (rest, Open) \<and> await m f (bs @ new, Open) = (Ready r, (rest @ new, Open))"
  proof (cases q)
    case (Inr x)
    with run q on have "f x (rest, Open) = (Ready r, v)" by (simp add: await_def)
    from settledD [OF f this, of new] show ?thesis using on Inr by (simp add: await_def)
  qed (use run q on in \<open>simp add: await_def\<close>)
qed

lemma settled_int [sim_intros]: "settled (view_int eof n)"
  unfolding view_int_def by (intro sim_intros)

lemma settled_frame: "settled (read_udp_frame (view_reader eof k))"
proof -
  have body: "settled (await (read_udp_body (view_reader eof k) atyp) (\<lambda>f. ret (Some f)))" for atyp
    unfolding read_udp_body_def read_target_address_def view_reader_sel by (intro sim_intros)
  show ?thesis
    unfolding settled_def
  proof (intro allI impI)
    fix bs new :: bytes and r v
    assume run: "read_udp_frame (view_reader eof k) (bs, Open) = (Ready r, v)"
    show "\<exists>rest. v = (rest, Open) \<and>
        read_udp_frame (view_reader eof k) (bs @ new, Open) = (Ready r, (rest @ new, Open))"
    proof (cases bs)
      case Nil
      with run show ?thesis
        by (simp add: read_udp_frame_def view_int_def view_exact_def await_def short_read_def)
    next
      case (Cons b xs)
      with run have "await (read_udp_body (view_reader eof k) b) (\<lambda>f. ret (Some f)) (xs, Open) = (Ready r, v)"
        by (simp add: read_udp_frame_def wire_simps)
      from settledD [OF body this, of new] show ?thesis
        unfolding Cons append_Cons by (auto simp: read_udp_frame_def wire_simps ret_def [abs_def])
    qed
  qed
qed

lemma frame_waits_before:
  assumes "fst (read_udp_frame (view_reader eof k) (bs @ new, Open)) = Pending"
  shows "fst (read_udp_frame (view_reader eof k) (bs, Open)) = Pending"
proof -
  obtain q v where "read_udp_frame (view_reader eof k) (bs, Open) = (q, v)"
    by (cases "read_udp_frame (view_reader eof k) (bs, Open)")
  with assms settledD [OF settled_frame, of eof k bs _ v new] show ?thesis
    by (cases q) auto
qed


text \<open>
  A reader that waits has taken all that was there, from a stream that is still open; one that
  succeeds leaves the stream open or ended as it was.
\<close>

definition orderly :: "(view, 'e, 'a) io \<Rightarrow> bool" where
  "orderly m \<longleftrightarrow> (\<forall>bs fin. case m (bs, fin) of
     (Pending, v) \<Rightarrow> fin = Open \<and> v = ([], Open)
   | (Ready (Inr _), v) \<Rightarrow> snd v = fin
   | (Ready (Inl _), v) \<Rightarrow> True)"

lemma orderly_Pending: "orderly m \<Longrightarrow> m (bs, fin) = (Pending, v) \<Longrightarrow> fin = Open \<and> v = ([], Open)"
  unfolding orderly_def by (drule spec [of _ bs], drule spec [of _ fin]) simp

lemma orderly_Inr: "orderly m \<Longrightarrow> m (bs, fin) = (Ready (Inr x), v) \<Longrightarrow> snd v = fin"
  unfolding orderly_def by (drule spec [of _ bs], drule spec [of _ fin]) simp

lemma orderlyI:
  assumes "\<And>bs fin v. m (bs, fin) = (Pending, v) \<Longrightarrow> fin = Open \<and> v = ([], Open)"
    and "\<And>bs fin x v. m (bs, fin) = (Ready (Inr x), v) \<Longrightarrow> snd v = fin"
  shows "orderly m"
  using assms by (auto simp: orderly_def split: prod.splits poll.splits sum.splits)

lemma orderly_ret [sim_intros]: "orderly (ret x)"
  by (rule orderlyI) (auto simp: ret_def)

lemma orderly_throw [sim_intros]: "orderly (throw e)"
  by (rule orderlyI) (auto simp: throw_def)

lemma orderly_if [sim_intros]: "orderly m \<Longrightarrow> orderly n \<Longrightarrow> orderly (if b then m else n)"
  by simp

lemma orderly_exact [sim_intros]: "orderly (view_exact eof n)"
  by (rule orderlyI) (auto simp: view_exact_def short_read_def split: if_splits stream_end.splits)

lemma orderly_io_try [sim_intros]: "orderly m \<Longrightarrow> orderly (io_try m)"
  by (rule orderlyI)
    (auto simp: io_try_def from_io_Inr_iff split: prod.splits poll.splits dest: orderly_Pending orderly_Inr)

lemma orderly_await [sim_intros]:
  assumes m: "orderly m" and f: "\<And>x. orderly (f x)"
  shows "orderly (await m f)"
proof (rule orderlyI)
  fix bs fin v
  assume run: "await m f (bs, fin) = (Pending, v)"
  show "fin = Open \<and> v = ([], Open)"
  proof (cases "\<exists>x t. m (bs, fin) = (Ready (Inr x), t)")
    case True
    then obtain x cs where "m (bs, fin) = (Ready (Inr x), (cs, fin))"
      using orderly_Inr [OF m] by (metis prod.collapse)
    with run have "f x (cs, fin) = (Pending, v)" by (simp add: await_def)
    then show ?thesis by (rule orderly_Pending [OF f])
  next
    case False
    with run have "m (bs, fin) = (Pending, v)"
      by (auto simp: await_def split: prod.splits poll.splits sum.splits)
    then show ?thesis by (rule orderly_Pending [OF m])
  qed
next
  fix bs fin y v
  assume "await m f (bs, fin) = (Ready (Inr y), v)"
  then obtain x t where "m (bs, fin) = (Ready (Inr x), t)" "f x t = (Ready (Inr y), v)"
    by (auto simp: await_Ready_Inr_iff)
  then show "snd v = fin" using orderly_Inr [OF m] orderly_Inr [OF f] by (metis prod.collapse)
qed

lemma orderly_int [sim_intros]: "orderly (view_int eof n)"
  unfolding view_int_def by (intro sim_intros)

lemma frame_waits_open:
  assumes "fst (read_udp_frame (view_reader eof k) (bs, fin)) = Pending"
  shows "fin = Open"
proof -
  have body: "orderly (await (read_udp_body (view_reader eof k) atyp) (\<lambda>f. ret (Some f)))" for atyp
    unfolding read_udp_body_def read_target_address_def view_reader_sel by (intro sim_intros)
  show ?thesis
  proof (cases bs)
    case Nil
    with assms show ?thesis
      by (cases fin) (simp_all add: read_udp_frame_def view_int_def view_exact_def await_def
          short_read_def ret_def throw_def split: if_splits)
  next
    case (Cons b xs)
    with assms have "fst (await (read_udp_body (view_reader eof k) b) (\<lambda>f. ret (Some f)) (xs, fin)) = Pending"
      by (simp add: read_udp_frame_def wire_simps)
    then show ?thesis using orderly_Pending [OF body] by (metis prod.collapse)
  qed
qed

text \<open>The whole of a frame that has been sent in two pieces is read when the second one has come.\<close>

lemma frame_head_waits:
  assumes "wire_frame f (head @ tail)" and "tail \<noteq> []"
  shows "fst (read_udp_frame (view_reader eof k) (head, Open)) = Pending"
proof -
  have whole: "read_udp_frame (view_reader eof k) (head @ tail, Open) = (Ready (Inr (Some f)), ([], Open))"
    using assms(1) by (simp add: view_frame_Some_iff)
  obtain q v where run: "read_udp_frame (view_reader eof k) (head, Open) = (q, v)"
    by (cases "read_udp_frame (view_reader eof k) (head, Open)")
  show ?thesis
  proof (cases q)
    case (Ready r)
    with settledD [OF settled_frame, of eof k head r v tail] run whole assms(2) show ?thesis by auto
  qed (use run in simp)
qed

text \<open>On any documented reader; after an error or an end nothing is said of the stream.\<close>

context byte_stream
begin

lemma sim_read_target_address [sim_intros]:
  "simulates vw (read_target_address R t) (read_target_address (view_reader eof k) t)"
  unfolding read_target_address_def view_reader_sel
  by (intro sim_intros exact_ok u8_ok u16_ok)

lemma sim_read_udp_body [sim_intros]:
  "simulates vw (read_udp_body R t) (read_udp_body (view_reader eof k) t)"
  unfolding read_udp_body_def view_reader_sel
  by (intro sim_intros exact_ok u8_ok u16_ok sim_read_target_address)

lemma read_udp_frame_result:
  "fst (read_udp_frame R s) = fst (read_udp_frame (view_reader eof k) (vw s)) \<and>
   (fst (read_udp_frame R s) = Ready (Inr (Some f)) \<longrightarrow>
      vw (snd (read_udp_frame R s)) = snd (read_udp_frame (view_reader eof k) (vw s)))"
proof -
  obtain r t t' where u8: "rd_u8 R s = (r, t)" "view_int eof 1 (vw s) = (r, t')"
    "succeeded r \<Longrightarrow> t' = vw t"
    using simulatesE [OF u8_ok, of s] by blast
  show ?thesis
  proof (cases r rule: succeeded.cases)
    case (1 atyp)
    have "simulates vw (await (read_udp_body R atyp) (\<lambda>frame. ret (Some frame)))
        (await (read_udp_body (view_reader eof k) atyp) (\<lambda>frame. ret (Some frame)))"
      by (intro sim_intros)
    with 1 u8 show ?thesis
      by (simp add: read_udp_frame_def simulates_def)
  qed (use u8 in \<open>auto simp: read_udp_frame_def\<close>)
qed

lemma read_udp_frame_SomeD:
  assumes "read_udp_frame R s = (Ready (Inr (Some f)), t)" and "vw s = (bs, fin)"
  obtains w rest where "wire_frame f w" "bs = w @ rest" "vw t = (rest, fin)"
proof -
  have "read_udp_frame (view_reader eof 0) (bs, fin) = (Ready (Inr (Some f)), vw t)"
    using read_udp_frame_result [of s 0 f] assms by (metis fst_conv prod.collapse snd_conv)
  then show thesis by (auto simp: view_frame_Some_iff intro: that)
qed

lemma read_udp_frame_Some_iff:
  assumes "vw s = (bs, fin)"
  shows "(\<exists>t. read_udp_frame R s = (Ready (Inr (Some f)), t) \<and> vw t = (rest, fin)) \<longleftrightarrow>
    (\<exists>w. wire_frame f w \<and> bs = w @ rest)"
proof -
  have "(\<exists>t. read_udp_frame R s = (Ready (Inr (Some f)), t) \<and> vw t = (rest, fin)) \<longleftrightarrow>
      read_udp_frame (view_reader eof 0) (bs, fin) = (Ready (Inr (Some f)), (rest, fin))"
    using read_udp_frame_result [of s 0 f] assms
    by (metis fst_conv prod.collapse snd_conv)
  then show ?thesis by (auto simp: view_frame_Some_iff)
qed

end

section \<open>Built frames\<close>

text \<open>The address a frame from a socket address carries.\<close>

fun address_of_socket :: "socket_addr \<Rightarrow> address" where
  "address_of_socket (V4 ip port) = IPv4 (V4 ip port)"
| "address_of_socket (V6 ip port flow scope) = IPv6 (V6 ip port 0 0)"

lemma build_udp_frame_Inr_iff:
  "build_udp_frame addr payload = Inr w \<longleftrightarrow>
   length payload \<le> 65535 \<and> wire_frame \<lparr>f_address = address_of_socket addr, f_payload = payload\<rparr> w"
proof (cases "length payload \<le> 65535")
  case True
  note build = build_udp_frame_def UDP_MAX_PAYLOAD_LEN_def UDP_CRLF_def Let_def
  have "wire_frame \<lparr>f_address = address_of_socket addr, f_payload = payload\<rparr> w \<longleftrightarrow>
      build_udp_frame addr payload = Inr w"
  proof (cases addr)
    case (V4 ip port)
    have "wire_address (IPv4 (V4 ip port)) v \<longleftrightarrow> v = 0x01 # ipv4_octets ip @ to_be port" for v
      by (auto intro: wire_ipv4 elim: wire_address_IPv4)
    with True V4 show ?thesis by (auto simp: wire_frame.simps build)
  next
    case (V6 ip port flow scope)
    have "wire_address (IPv6 (V6 ip port 0 0)) v \<longleftrightarrow> v = 0x04 # ipv6_octets ip @ to_be port" for v
      by (auto intro: wire_ipv6 elim: wire_address_IPv6)
    with True V6 show ?thesis by (auto simp: wire_frame.simps build)
  qed
  with True show ?thesis by blast
qed (simp add: build_udp_frame_def UDP_MAX_PAYLOAD_LEN_def)

lemma build_udp_frame_ok: "length payload \<le> 65535 \<Longrightarrow> \<exists>w. build_udp_frame addr payload = Inr w"
  by (simp add: build_udp_frame_def UDP_MAX_PAYLOAD_LEN_def)

section \<open>Properties\<close>

text \<open>
  C17. Over any reader with the documented behaviour, \<open>read_udp_frame\<close> returns a frame exactly when
  the stream starts with the wire form of that frame, and leaves the stream just behind it; it
  reports the end of the association exactly when the stream has ended before the first byte of a
  frame.
\<close>

theorem udp_reader_exact:
  assumes "byte_stream_laws R vw eof" and "vw s = (bs, fin)"
  shows "((\<exists>t. read_udp_frame R s = (Ready (Inr (Some f)), t) \<and> vw t = (rest, fin)) \<longleftrightarrow>
      (\<exists>w. wire_frame f w \<and> bs = w @ rest)) \<and>
    (fst (read_udp_frame R s) = Ready (Inr None) \<longleftrightarrow>
      bs = [] \<and> (fin = Closed \<or> (\<exists>e. fin = Broken e \<and> io_kind e = UnexpectedEof)))"
proof -
  have stream: "byte_stream R vw eof" using assms(1) by (rule byte_stream.intro)
  have "io_kind eof = UnexpectedEof" using stream by (rule byte_stream.eof_kind)
  then show ?thesis
    using byte_stream.read_udp_frame_Some_iff [OF stream assms(2), of f rest]
      byte_stream.read_udp_frame_result [OF stream, of s 0]
    by (simp add: assms(2) view_frame_None_iff)
qed

theorem udp_reader_exact_witness:
  "((\<exists>t. read_udp_frame (view_reader early_eof 0)
         ([0x01, 8, 8, 8, 8, 0, 53, 0, 2, 0x0d, 0x0a, 0x68, 0x69, 0x01], Open) =
       (Ready (Inr (Some \<lparr>f_address = IPv4 (V4 (Ipv4Addr 8 8 8 8) 53), f_payload = [0x68, 0x69]\<rparr>)), t) \<and>
       id t = ([0x01], Open)) \<longleftrightarrow>
     (\<exists>w. wire_frame \<lparr>f_address = IPv4 (V4 (Ipv4Addr 8 8 8 8) 53), f_payload = [0x68, 0x69]\<rparr> w \<and>
       [0x01, 8, 8, 8, 8, 0, 53, 0, 2, 0x0d, 0x0a, 0x68, 0x69, 0x01] = w @ [0x01])) \<and>
   (fst (read_udp_frame (view_reader early_eof 0)
       ([0x01, 8, 8, 8, 8, 0, 53, 0, 2, 0x0d, 0x0a, 0x68, 0x69, 0x01], Open)) = Ready (Inr None) \<longleftrightarrow>
     [0x01, 8, 8, 8, 8, 0, 53, 0, 2, 0x0d, 0x0a, 0x68, 0x69, 0x01 :: u8] = [] \<and>
     (Open = Closed \<or> (\<exists>e. Open = Broken e \<and> io_kind e = UnexpectedEof)))"
  by (rule udp_reader_exact [OF slice_stream.laws]) simp

text \<open>
  C18. Round trip of datagrams: \<open>build_udp_frame\<close> succeeds exactly on payloads of at most 65535
  bytes; its result, followed by anything, is read back by \<open>read_udp_frame\<close> as one frame with
  the datagram's source address (less the flow information and scope id of IPv6) and its payload.
\<close>

theorem udp_frame_roundtrip:
  assumes "byte_stream_laws R vw eof" and "build_udp_frame addr payload = Inr w"
    and "vw s = (w @ rest, fin)"
  shows "(\<exists>t. read_udp_frame R s =
      (Ready (Inr (Some \<lparr>f_address = address_of_socket addr, f_payload = payload\<rparr>)), t) \<and>
      vw t = (rest, fin)) \<and>
    ((\<exists>v. build_udp_frame any data = Inr v) \<longleftrightarrow> length data \<le> 65535)"
proof -
  have "byte_stream R vw eof" using assms(1) by (rule byte_stream.intro)
  from byte_stream.read_udp_frame_Some_iff [OF this assms(3)] assms(2) show ?thesis
    using build_udp_frame_ok by (auto simp: build_udp_frame_Inr_iff)
qed

theorem udp_frame_roundtrip_witness:
  "(\<exists>t. read_udp_frame (view_reader early_eof 0)
       ([0x01, 1, 2, 3, 4, 0, 53, 0, 2, 0x0d, 0x0a, 7, 9] @ [5], Closed) =
      (Ready (Inr (Some \<lparr>f_address = address_of_socket (V4 (Ipv4Addr 1 2 3 4) 53),
         f_payload = [7, 9]\<rparr>)), t) \<and>
      id t = ([5], Closed)) \<and>
   ((\<exists>v. build_udp_frame (V4 (Ipv4Addr 1 2 3 4) 53) [] = Inr v) \<longleftrightarrow> length ([] :: bytes) \<le> 65535)"
  by (rule udp_frame_roundtrip [OF slice_stream.laws])
    (simp_all add: build_udp_frame_def UDP_MAX_PAYLOAD_LEN_def UDP_CRLF_def to_be_u16)

end
