(* ===== verification/Prefixed.thy ===== *)
theory Prefixed
  imports Streams
begin

text \<open>
  src/proxy/fallback.rs, \<open>PrefixedStream\<close> and \<open>peek_client_data\<close>: the stream that gives the bytes
  read ahead back before the rest of the connection. Reading from the \<open>Cursor\<close> and from the inner
  stream is tokio's and a parameter.
\<close>

section \<open>The code\<close>

text \<open>\<open>std::io::Cursor<Vec<u8>>\<close>\<close>

record cursor =
  cur_data :: bytes
  cur_pos :: nat

record 's prefixed =
  prefix :: cursor
  inner :: 's

definition prefixed_new :: "bytes \<Rightarrow> 's \<Rightarrow> 's prefixed" where
  "prefixed_new data s = \<lparr>prefix = \<lparr>cur_data = data, cur_pos = 0\<rparr>, inner = s\<rparr>"

text \<open>
  The position never exceeds the length (\<open>prefixed_ok\<close> below), so that the subtraction is exact.
\<close>

definition prefixed_poll_read ::
  "(nat \<Rightarrow> (cursor, io_error, bytes) io) \<Rightarrow> (nat \<Rightarrow> ('s, io_error, bytes) io) \<Rightarrow>
   nat \<Rightarrow> ('s prefixed, io_error, bytes) io" where
  "prefixed_poll_read cursor_read inner_read n = (\<lambda>p.
     let prefix_remaining = length (cur_data (prefix p)) - cur_pos (prefix p) in
     if 0 < prefix_remaining then
       (case cursor_read n (prefix p) of (r, c) \<Rightarrow> (r, p\<lparr>prefix := c\<rparr>))
     else
       (case inner_read n (inner p) of (r, s) \<Rightarrow> (r, p\<lparr>inner := s\<rparr>)))"

definition prefixed_poll_write ::
  "(bytes \<Rightarrow> ('s, io_error, nat) io) \<Rightarrow> bytes \<Rightarrow> ('s prefixed, io_error, nat) io" where
  "prefixed_poll_write inner_write buf = (\<lambda>p.
     case inner_write buf (inner p) of (r, s) \<Rightarrow> (r, p\<lparr>inner := s\<rparr>))"

definition prefixed_poll_flush ::
  "('s, io_error, unit) io \<Rightarrow> ('s prefixed, io_error, unit) io" where
  "prefixed_poll_flush inner_flush = (\<lambda>p.
     case inner_flush (inner p) of (r, s) \<Rightarrow> (r, p\<lparr>inner := s\<rparr>))"

definition prefixed_poll_shutdown ::
  "('s, io_error, unit) io \<Rightarrow> ('s prefixed, io_error, unit) io" where
  "prefixed_poll_shutdown inner_shutdown = (\<lambda>p.
     case inner_shutdown (inner p) of (r, s) \<Rightarrow> (r, p\<lparr>inner := s\<rparr>))"

text \<open>One \<open>read\<close> into a buffer of \<open>capacity\<close> bytes, truncated to what was read.\<close>

definition peek_client_data :: "'s async_reader \<Rightarrow> nat \<Rightarrow> ('s, trojan_error, bytes) io" where
  "peek_client_data R capacity = await (io_try (rd_read R capacity)) (\<lambda>buf. ret buf)"

section \<open>What a prefixed stream reads\<close>

text \<open>
  The documented behaviour of reading a cursor: some of the bytes behind the position, which moves
  behind them; the data stays.
\<close>

definition cursor_law :: "(nat \<Rightarrow> (cursor, io_error, bytes) io) \<Rightarrow> bool" where
  "cursor_law m \<longleftrightarrow> (\<forall>n c. 0 < n \<longrightarrow> cur_pos c < length (cur_data c) \<longrightarrow>
     (\<exists>k. 0 < k \<and> k \<le> n \<and> k \<le> length (cur_data c) - cur_pos c \<and>
        m n c = (Ready (Inr (take k (drop (cur_pos c) (cur_data c)))),
          c\<lparr>cur_pos := cur_pos c + k\<rparr>)))"

definition prefixed_view :: "('s \<Rightarrow> view) \<Rightarrow> 's prefixed \<Rightarrow> view" where
  "prefixed_view vw p =
     (drop (cur_pos (prefix p)) (cur_data (prefix p)) @ fst (vw (inner p)), snd (vw (inner p)))"

definition prefixed_ok :: "'s prefixed \<Rightarrow> bool" where
  "prefixed_ok p \<longleftrightarrow> cur_pos (prefix p) \<le> length (cur_data (prefix p))"

lemma prefixed_view_new [simp]:
  "prefixed_view vw (prefixed_new data s) = (data @ fst (vw s), snd (vw s))"
  by (simp add: prefixed_view_def prefixed_new_def)

lemma inner_new [simp]: "inner (prefixed_new data s) = s"
  by (simp add: prefixed_new_def)

lemma prefixed_ok_new: "prefixed_ok (prefixed_new data s)"
  by (simp add: prefixed_ok_def prefixed_new_def)

lemma prefixed_ok_read:
  assumes "cursor_law cursor_read" and "0 < n" and "prefixed_ok p"
    and "prefixed_poll_read cursor_read inner_read n p = (r, p')"
  shows "prefixed_ok p'"
proof (cases "cur_pos (prefix p) < length (cur_data (prefix p))")
  case True
  with assms(1,2) obtain k where "k \<le> length (cur_data (prefix p)) - cur_pos (prefix p)"
    "cursor_read n (prefix p) = (Ready (Inr (take k (drop (cur_pos (prefix p)) (cur_data (prefix p))))),
       (prefix p)\<lparr>cur_pos := cur_pos (prefix p) + k\<rparr>)"
    unfolding cursor_law_def by blast
  with True assms(4) show ?thesis
    by (auto simp: prefixed_poll_read_def prefixed_ok_def)
next
  case False
  with assms(3,4) show ?thesis
    by (auto simp: prefixed_poll_read_def prefixed_ok_def split: prod.splits)
qed

text \<open>The code is an \<open>AsyncRead\<close> whenever its parts are.\<close>

locale prefixed_stream = inn: async_read vw inner_read
  for vw :: "'s \<Rightarrow> view" and inner_read :: "nat \<Rightarrow> ('s, io_error, bytes) io" +
  fixes cursor_read :: "nat \<Rightarrow> (cursor, io_error, bytes) io"
  assumes cursor_ok: "cursor_law cursor_read"
begin

lemma poll_read_prefix:
  assumes "0 < n" and "cur_pos (prefix p) < length (cur_data (prefix p))"
  obtains k p' where "0 < k" "k \<le> n" "k \<le> length (cur_data (prefix p)) - cur_pos (prefix p)"
    "prefixed_poll_read cursor_read inner_read n p =
       (Ready (Inr (take k (fst (prefixed_view vw p)))), p')"
    "prefixed_view vw p' = (drop k (fst (prefixed_view vw p)), snd (prefixed_view vw p))"
proof -
  from assms cursor_ok obtain k where k: "0 < k" "k \<le> n"
    "k \<le> length (cur_data (prefix p)) - cur_pos (prefix p)"
    "cursor_read n (prefix p) = (Ready (Inr (take k (drop (cur_pos (prefix p)) (cur_data (prefix p))))),
       (prefix p)\<lparr>cur_pos := cur_pos (prefix p) + k\<rparr>)"
    unfolding cursor_law_def by blast
  show thesis
    by (rule that [OF k(1-3), of "p\<lparr>prefix := (prefix p)\<lparr>cur_pos := cur_pos (prefix p) + k\<rparr>\<rparr>"])
      (use assms k in \<open>simp_all add: prefixed_poll_read_def prefixed_view_def add.commute\<close>)
qed

lemma poll_read_inner:
  assumes "length (cur_data (prefix p)) \<le> cur_pos (prefix p)"
  shows "prefixed_poll_read cursor_read inner_read n p =
      (case inner_read n (inner p) of (r, s) \<Rightarrow> (r, p\<lparr>inner := s\<rparr>))"
    and "prefixed_view vw p = vw (inner p)"
    and "prefixed_view vw (p\<lparr>inner := s\<rparr>) = vw s"
  using assms by (simp_all add: prefixed_poll_read_def prefixed_view_def)

lemma prefixed_read_law: "read_law (prefixed_view vw) (prefixed_poll_read cursor_read inner_read)"
  unfolding read_law_def
proof (intro allI impI)
  fix n :: nat and p :: "'s prefixed" and bs fin
  assume n: "0 < n" and view: "prefixed_view vw p = (bs, fin)"
  show "(bs \<noteq> [] \<longrightarrow> (\<exists>k s'. 0 < k \<and> k \<le> n \<and> k \<le> length bs \<and>
        prefixed_poll_read cursor_read inner_read n p = (Ready (Inr (take k bs)), s') \<and>
        prefixed_view vw s' = (drop k bs, fin))) \<and>
     (bs = [] \<longrightarrow> (\<exists>s'. prefixed_view vw s' = ([], fin) \<and>
        prefixed_poll_read cursor_read inner_read n p =
        (case fin of Closed \<Rightarrow> Ready (Inr []) | Broken e \<Rightarrow> Ready (Inl e) | Open \<Rightarrow> Pending, s')))"
  proof (cases "cur_pos (prefix p) < length (cur_data (prefix p))")
    case True
    then obtain k p' where "0 < k" "k \<le> n"
      "k \<le> length (cur_data (prefix p)) - cur_pos (prefix p)"
      "prefixed_poll_read cursor_read inner_read n p = (Ready (Inr (take k bs)), p')"
      "prefixed_view vw p' = (drop k bs, fin)"
      by (rule poll_read_prefix [OF n]) (simp add: view)
    moreover have "length (cur_data (prefix p)) - cur_pos (prefix p) \<le> length bs" and "bs \<noteq> []"
      using view True by (auto simp: prefixed_view_def)
    ultimately show ?thesis by (meson le_trans)
  next
    case False
    then have past: "length (cur_data (prefix p)) \<le> cur_pos (prefix p)" by simp
    note inner = poll_read_inner [OF past]
    show ?thesis
    proof (cases "bs = []")
      case True
      with n view inner(2) have "vw (inner p) = ([], fin)" by simp
      from inn.read_none [OF n this] obtain t where "vw t = ([], fin)" "inner_read n (inner p) =
          (case fin of Closed \<Rightarrow> Ready (Inr []) | Broken e \<Rightarrow> Ready (Inl e) | Open \<Rightarrow> Pending, t)" .
      with True show ?thesis
        by (intro conjI impI exI [of _ "p\<lparr>inner := t\<rparr>"]) (simp_all add: inner)
    next
      case False
      with view inner(2) have "vw (inner p) = (bs, fin)" by simp
      from inn.read_some [OF n this False] obtain k t where "0 < k" "k \<le> n" "k \<le> length bs"
        "inner_read n (inner p) = (Ready (Inr (take k bs)), t)" "vw t = (drop k bs, fin)" .
      with False show ?thesis
        by (intro conjI impI exI [of _ k] exI [of _ "p\<lparr>inner := t\<rparr>"]) (simp_all add: inner)
    qed
  qed
qed

end

sublocale prefixed_stream \<subseteq> async_read "prefixed_view vw" "prefixed_poll_read cursor_read inner_read"
  by unfold_locales (rule prefixed_read_law)

text \<open>Reading a cursor copies as much as fits, as \<open>impl Read for Cursor\<close> documents.\<close>

definition cursor_copy :: "nat \<Rightarrow> (cursor, io_error, bytes) io" where
  "cursor_copy n c =
     (let rest = drop (cur_pos c) (cur_data c) in
      (Ready (Inr (take n rest)), c\<lparr>cur_pos := cur_pos c + min n (length rest)\<rparr>))"

lemma cursor_law_copy: "cursor_law cursor_copy"
  unfolding cursor_law_def
proof (intro allI impI)
  fix n :: nat and c :: cursor
  assume n: "0 < n" and pos: "cur_pos c < length (cur_data c)"
  let ?k = "min n (length (cur_data c) - cur_pos c)"
  have "cursor_copy n c = (Ready (Inr (take ?k (drop (cur_pos c) (cur_data c)))),
      c\<lparr>cur_pos := cur_pos c + ?k\<rparr>)"
    by (simp add: cursor_copy_def min_def)
  with n pos show "\<exists>k. 0 < k \<and> k \<le> n \<and> k \<le> length (cur_data c) - cur_pos c \<and>
      cursor_copy n c = (Ready (Inr (take k (drop (cur_pos c) (cur_data c)))),
        c\<lparr>cur_pos := cur_pos c + k\<rparr>)"
    by (intro exI [of _ ?k]) simp
qed

interpretation peeked_stream: prefixed_stream id "view_read k" cursor_copy for k
  by unfold_locales (simp_all add: read_law_view_read cursor_law_copy)

section \<open>Properties\<close>

text \<open>
  C13. A \<open>PrefixedStream\<close> over a documented reader is itself one: its bytes are the prefix, then
  those of the inner stream, and it ends as the inner stream ends. So \<open>PrefixedStream::new\<close> gives
  peeked bytes back without loss, duplication or reordering.
\<close>

theorem prefixed_stream_reads:
  assumes "read_law vw inner_read" and "cursor_law cursor_read"
  shows "read_law (prefixed_view vw) (prefixed_poll_read cursor_read inner_read) \<and>
    prefixed_view vw (prefixed_new data s) = (data @ fst (vw s), snd (vw s))"
proof -
  have "prefixed_stream vw inner_read cursor_read"
    using assms by (simp add: prefixed_stream_def async_read_def prefixed_stream_axioms_def)
  then have "read_law (prefixed_view vw) (prefixed_poll_read cursor_read inner_read)"
    by (rule prefixed_stream.prefixed_read_law)
  then show ?thesis by simp
qed

theorem prefixed_stream_reads_witness:
  "read_law (prefixed_view id) (prefixed_poll_read cursor_copy (view_read 2)) \<and>
   prefixed_view id (prefixed_new [0x50, 0x52] ([0x49, 0x4E], Closed)) =
     ([0x50, 0x52] @ fst (id ([0x49, 0x4E], Closed)), snd (id ([0x49, 0x4E :: u8], Closed)))"
  by (rule prefixed_stream_reads) (simp_all add: read_law_view_read cursor_law_copy)

text \<open>
  Writing, flushing and shutting down go to the inner stream alone: the bytes still to be
  given back are untouched, and the result is the inner stream's.
\<close>

theorem prefixed_writes_pass_through:
  "prefix (snd (prefixed_poll_write w buf p)) = prefix p \<and>
   fst (prefixed_poll_write w buf p) = fst (w buf (inner p)) \<and>
   inner (snd (prefixed_poll_write w buf p)) = snd (w buf (inner p)) \<and>
   prefix (snd (prefixed_poll_flush f p)) = prefix p \<and>
   inner (snd (prefixed_poll_flush f p)) = snd (f (inner p)) \<and>
   prefix (snd (prefixed_poll_shutdown f p)) = prefix p \<and>
   inner (snd (prefixed_poll_shutdown f p)) = snd (f (inner p))"
  by (simp add: prefixed_poll_write_def prefixed_poll_flush_def prefixed_poll_shutdown_def
      split: prod.splits)

end
