(* ===== verification/Sessions.thy ===== *)
theory Sessions
  imports Addresses
begin

text \<open>
  src/proxy/session.rs: the record of one proxied connection. The process-wide counter
  \<open>SESSION_ID\<close> is a state the constructor takes and returns; the clock is a parameter.
\<close>

record session =
  s_id :: u64
  client_addr :: socket_addr
  target :: address
  s_command :: command
  start_time :: nat
  bytes_sent :: u64
  bytes_received :: u64

definition SESSION_ID_init :: u64 where "SESSION_ID_init = 1"

definition session_new ::
  "u64 \<Rightarrow> nat \<Rightarrow> socket_addr \<Rightarrow> address \<Rightarrow> command \<Rightarrow> session \<times> u64" where
  "session_new SESSION_ID now addr tgt cmd =
     (\<lparr>s_id = SESSION_ID, client_addr = addr, target = tgt, s_command = cmd, start_time = now,
       bytes_sent = 0, bytes_received = 0\<rparr>, SESSION_ID + 1)"

text \<open>\<open>Instant::elapsed\<close> saturates at zero, as subtraction on \<^typ>\<open>nat\<close> does.\<close>

definition duration :: "nat \<Rightarrow> session \<Rightarrow> nat" where
  "duration now s = now - start_time s"

text \<open>\<open>fetch_add\<close> on an atomic wraps around.\<close>

definition add_sent :: "u64 \<Rightarrow> session \<Rightarrow> session" where
  "add_sent n s = s\<lparr>bytes_sent := bytes_sent s + n\<rparr>"

definition add_received :: "u64 \<Rightarrow> session \<Rightarrow> session" where
  "add_received n s = s\<lparr>bytes_received := bytes_received s + n\<rparr>"

lemma add_sent_sel [simp]:
  "bytes_sent (add_sent n s) = bytes_sent s + n"
  "bytes_received (add_sent n s) = bytes_received s"
  "s_id (add_sent n s) = s_id s"
  by (simp_all add: add_sent_def)

lemma add_received_sel [simp]:
  "bytes_received (add_received n s) = bytes_received s + n"
  "bytes_sent (add_received n s) = bytes_sent s"
  "s_id (add_received n s) = s_id s"
  by (simp_all add: add_received_def)

text \<open>Counted identifiers are unique until the counter wraps around.\<close>

lemma counted_ids_distinct:
  assumes "n \<le> 2 ^ 64"
  shows "distinct (map (\<lambda>i. (c :: u64) + of_nat i) [0..<n])"
proof -
  have "i = j" if "i < n" "j < n" and eq: "c + of_nat i = c + of_nat j" for i j
  proof -
    from eq have "(of_nat i :: u64) = of_nat j" by simp
    then have "i mod 2 ^ 64 = j mod 2 ^ 64"
      by (simp add: word_of_nat_eq_iff take_bit_eq_mod)
    moreover have "i < 2 ^ 64" "j < 2 ^ 64"
      using that assms by auto
    ultimately show ?thesis by simp
  qed
  then show ?thesis
    by (simp add: distinct_map inj_on_def)
qed

end
