(* ===== verification/Tunnel.thy ===== *)
theory Tunnel
  imports Prefixed Sessions Headers
begin

text \<open>
  src/proxy/fallback.rs (\<open>handle_fallback\<close>), src/proxy/relay.rs and src/proxy/tcp.rs: connecting
  the client to a backend and copying between them. Connecting, writing and
  \<open>copy_bidirectional\<close> are tokio's and come as a record of operations; a handler returns its result
  and the streams as they are when they are dropped.
\<close>

section \<open>The operations\<close>

text \<open>A \<open>Duration\<close>, in nanoseconds, and \<open>Duration::from_secs\<close>, which does not overflow.\<close>

type_synonym nanos = nat

definition from_secs :: "u64 \<Rightarrow> nanos" where "from_secs secs = unat secs * 10 ^ 9"

text \<open>\<open>tokio::time::timeout\<close>\<close>

datatype 'a timed = Elapsed | InTime 'a

record ('c, 't) tunnel_ops =
  tcp_connect :: "rstring \<Rightarrow> (io_error + 't) poll"
  timed_connect_addr :: "nanos \<Rightarrow> socket_addr \<Rightarrow> (io_error + 't) timed"
  timed_connect_str :: "nanos \<Rightarrow> rstring \<Rightarrow> (io_error + 't) timed"
  write_all :: "bytes \<Rightarrow> ('t, io_error, unit) io"
  copy_bidirectional :: "'c \<Rightarrow> 't \<Rightarrow> (io_error + u64 \<times> u64) poll \<times> 'c \<times> 't"

text \<open>The result of an asynchronous handler and the streams it leaves.\<close>

type_synonym ('c, 't, 'a) handled = "(trojan_error + 'a) poll \<times> 'c \<times> 't option"

section \<open>The code\<close>

definition relay :: "('c, 't) tunnel_ops \<Rightarrow> 'c \<Rightarrow> 't \<Rightarrow> ('c, 't, u64 \<times> u64) handled" where
  "relay ops client remote =
     (case copy_bidirectional ops client remote of
        (Ready r, client, remote) \<Rightarrow> (Ready (from_io r), client, Some remote)
      | (Pending, client, remote) \<Rightarrow> (Pending, client, Some remote))"

definition handle_fallback ::
  "('c, 't) tunnel_ops \<Rightarrow> 'c \<Rightarrow> bytes \<Rightarrow> rstring \<Rightarrow> ('c, 't, unit) handled" where
  "handle_fallback ops client peeked_buf fallback_addr =
     (case tcp_connect ops fallback_addr of
        Pending \<Rightarrow> (Pending, client, None)
      | Ready (Inl e) \<Rightarrow>
          (Ready (Inl (RemoteConnectFailed
             (ascii ''fallback '' @ fallback_addr @ ascii '': '' @ io_message e))), client, None)
      | Ready (Inr fallback_stream) \<Rightarrow>
          (case (if peeked_buf \<noteq> [] then io_try (write_all ops peeked_buf) fallback_stream
                 else (Ready (Inr ()), fallback_stream)) of
             (Pending, fallback_stream) \<Rightarrow> (Pending, client, Some fallback_stream)
           | (Ready (Inl e), fallback_stream) \<Rightarrow> (Ready (Inl e), client, Some fallback_stream)
           | (Ready (Inr _), fallback_stream) \<Rightarrow>
               (case copy_bidirectional ops client fallback_stream of
                  (Pending, client, fallback_stream) \<Rightarrow> (Pending, client, Some fallback_stream)
                | (Ready (Inl e), client, fallback_stream) \<Rightarrow>
                    (Ready (Inl (Io e)), client, Some fallback_stream)
                | (Ready (Inr (up, down)), client, fallback_stream) \<Rightarrow>
                    (Ready (Inr ()), client, Some fallback_stream))))"

fun connect_target ::
  "('c, 't) tunnel_ops \<Rightarrow> nanos \<Rightarrow> address \<Rightarrow> (io_error + 't) timed" where
  "connect_target ops connect_timeout (IPv4 addr) = timed_connect_addr ops connect_timeout addr"
| "connect_target ops connect_timeout (IPv6 addr) = timed_connect_addr ops connect_timeout addr"
| "connect_target ops connect_timeout (Domain domain p) =
     timed_connect_str ops connect_timeout (domain @ ascii '':'' @ show_dec (uint p))"

definition handle_tcp ::
  "('c, 't) tunnel_ops \<Rightarrow> 'c \<Rightarrow> address \<Rightarrow> session \<Rightarrow> nanos \<Rightarrow> session \<times> ('c, 't, unit) handled" where
  "handle_tcp ops client tgt session connect_timeout =
     (case connect_target ops connect_timeout tgt of
        InTime (Inl e) \<Rightarrow> (session, Ready (Inl (RemoteConnectFailed (io_message e))), client, None)
      | Elapsed \<Rightarrow> (session, Ready (Inl Timeout), client, None)
      | InTime (Inr remote_stream) \<Rightarrow>
          (case relay ops client remote_stream of
             (Ready (Inr (upstream, downstream)), streams) \<Rightarrow>
               (add_received downstream (add_sent upstream session), Ready (Inr ()), streams)
           | (Ready (Inl e), streams) \<Rightarrow> (session, Ready (Inl e), streams)
           | (Pending, streams) \<Rightarrow> (session, Pending, streams)))"

section \<open>What is copied\<close>

text \<open>
  The documented behaviour of a full-duplex stream as the tunnel sees it: what it will still be
  read (its view) and what has been written to it. \<open>write_all\<close> appends, all of it when it
  succeeds; \<open>copy_bidirectional\<close> appends to each stream an initial part of what the other delivers,
  all of it when it succeeds, and then returns the two byte counts. A stream that has just been
  connected has nothing written to it.
\<close>

definition write_law :: "('t \<Rightarrow> view) \<Rightarrow> ('t \<Rightarrow> bytes) \<Rightarrow> (bytes \<Rightarrow> ('t, io_error, unit) io) \<Rightarrow> bool" where
  "write_law vw sent m \<longleftrightarrow> (\<forall>bs t r t'. m bs t = (r, t') \<longrightarrow>
     vw t' = vw t \<and>
     (\<exists>k \<le> length bs. sent t' = sent t @ take k bs \<and> (succeeded r \<longrightarrow> k = length bs)))"

definition full_copy :: "nat \<Rightarrow> nat \<Rightarrow> bytes \<Rightarrow> bytes \<Rightarrow> ('e + u64 \<times> u64) poll \<Rightarrow> bool" where
  "full_copy i j up_bytes down_bytes r \<longleftrightarrow> (\<forall>up down. r = Ready (Inr (up, down)) \<longrightarrow>
     i = length up_bytes \<and> j = length down_bytes \<and> up = of_nat i \<and> down = of_nat j)"

lemma full_copy_from_io:
  "full_copy i j a b q \<Longrightarrow>
   full_copy i j a b (case q of Ready x \<Rightarrow> Ready (from_io x) | Pending \<Rightarrow> Pending)"
  by (auto simp: full_copy_def from_io_def split: poll.splits sum.splits)

definition copy_law ::
  "('c \<Rightarrow> view) \<Rightarrow> ('c \<Rightarrow> bytes) \<Rightarrow> ('t \<Rightarrow> view) \<Rightarrow> ('t \<Rightarrow> bytes) \<Rightarrow>
   ('c \<Rightarrow> 't \<Rightarrow> (io_error + u64 \<times> u64) poll \<times> 'c \<times> 't) \<Rightarrow> bool" where
  "copy_law vwc sentc vwt sentt m \<longleftrightarrow> (\<forall>c t r c' t'. m c t = (r, c', t') \<longrightarrow>
     (\<exists>i \<le> length (fst (vwc c)). \<exists>j \<le> length (fst (vwt t)).
        sentt t' = sentt t @ take i (fst (vwc c)) \<and>
        sentc c' = sentc c @ take j (fst (vwt t)) \<and>
        full_copy i j (fst (vwc c)) (fst (vwt t)) r))"

definition tunnel_laws ::
  "('c, 't) tunnel_ops \<Rightarrow> ('c \<Rightarrow> view) \<Rightarrow> ('c \<Rightarrow> bytes) \<Rightarrow> ('t \<Rightarrow> view) \<Rightarrow> ('t \<Rightarrow> bytes) \<Rightarrow> bool" where
  "tunnel_laws ops vwc sentc vwt sentt \<longleftrightarrow>
     (\<forall>a t. tcp_connect ops a = Ready (Inr t) \<longrightarrow> sentt t = []) \<and>
     (\<forall>d a t. timed_connect_addr ops d a = InTime (Inr t) \<longrightarrow> sentt t = []) \<and>
     (\<forall>d a t. timed_connect_str ops d a = InTime (Inr t) \<longrightarrow> sentt t = []) \<and>
     write_law vwt sentt (write_all ops) \<and>
     copy_law vwc sentc vwt sentt (copy_bidirectional ops)"

locale tunnel =
  fixes ops :: "('c, 't) tunnel_ops"
    and vwc :: "'c \<Rightarrow> view" and sentc :: "'c \<Rightarrow> bytes"
    and vwt :: "'t \<Rightarrow> view" and sentt :: "'t \<Rightarrow> bytes"
  assumes laws: "tunnel_laws ops vwc sentc vwt sentt"
begin

lemma connected_empty:
  "tcp_connect ops a = Ready (Inr t) \<Longrightarrow> sentt t = []"
  "timed_connect_addr ops d sa = InTime (Inr t) \<Longrightarrow> sentt t = []"
  "timed_connect_str ops d a = InTime (Inr t) \<Longrightarrow> sentt t = []"
  using laws by (auto simp: tunnel_laws_def)

lemma write_all_sent:
  assumes "write_all ops bs t = (r, t')"
  obtains k where "k \<le> length bs" "sentt t' = sentt t @ take k bs" "vwt t' = vwt t"
    "succeeded r \<Longrightarrow> k = length bs"
proof -
  from laws have "write_law vwt sentt (write_all ops)"
    by (simp add: tunnel_laws_def)
  with assms show thesis
    unfolding write_law_def by (blast intro: that)
qed

lemma copied:
  assumes "copy_bidirectional ops c t = (r, c', t')"
  obtains i j where "i \<le> length (fst (vwc c))" "j \<le> length (fst (vwt t))"
    "sentt t' = sentt t @ take i (fst (vwc c))" "sentc c' = sentc c @ take j (fst (vwt t))"
    "full_copy i j (fst (vwc c)) (fst (vwt t)) r"
proof -
  from laws have "copy_law vwc sentc vwt sentt (copy_bidirectional ops)"
    by (simp add: tunnel_laws_def)
  from this [unfolded copy_law_def, rule_format, OF assms] show thesis
    by (elim exE conjE) (rule that)
qed

lemma connect_target_empty: "connect_target ops d a = InTime (Inr t) \<Longrightarrow> sentt t = []"
  by (cases a) (auto dest: connected_empty)

lemma relay_forwards:
  assumes "relay ops c t = (r, c', t')"
  obtains t'' i j where "t' = Some t''" "i \<le> length (fst (vwc c))" "j \<le> length (fst (vwt t))"
    "sentt t'' = sentt t @ take i (fst (vwc c))" "sentc c' = sentc c @ take j (fst (vwt t))"
    "full_copy i j (fst (vwc c)) (fst (vwt t)) r"
proof -
  obtain q c1 t1 where copy: "copy_bidirectional ops c t = (q, c1, t1)"
    by (metis prod_cases3)
  with assms have "c' = c1" "t' = Some t1" and r: "r = (case q of Ready x \<Rightarrow> Ready (from_io x) | Pending \<Rightarrow> Pending)"
    by (auto simp: relay_def split: poll.splits)
  moreover from copied [OF copy] obtain i j where "i \<le> length (fst (vwc c))" "j \<le> length (fst (vwt t))"
    "sentt t1 = sentt t @ take i (fst (vwc c))" "sentc c1 = sentc c @ take j (fst (vwt t))"
    "full_copy i j (fst (vwc c)) (fst (vwt t)) q" .
  ultimately show thesis
    by (intro that [of t1 i j]) (simp_all add: full_copy_from_io)
qed

text \<open>The fallback backend receives the peeked bytes, then what the client sends after them.\<close>

lemma fallback_forwards:
  assumes fb: "handle_fallback ops c peeked addr = (r, c', Some t')"
  obtains t0 i j where "tcp_connect ops addr = Ready (Inr t0)"
    "i \<le> length (peeked @ fst (vwc c))" "j \<le> length (fst (vwt t0))"
    "sentt t' = take i (peeked @ fst (vwc c))"
    "sentc c' = sentc c @ take j (fst (vwt t0))"
    "r = Ready (Inr ()) \<Longrightarrow> i = length (peeked @ fst (vwc c)) \<and> j = length (fst (vwt t0))"
proof -
  from fb obtain t0 where t0: "tcp_connect ops addr = Ready (Inr t0)"
    by (auto simp: handle_fallback_def split: poll.splits sum.splits)
  note empty = connected_empty(1) [OF t0]
  obtain q t1 where w: "(if peeked \<noteq> [] then io_try (write_all ops peeked) t0
      else (Ready (Inr ()), t0)) = (q, t1)" by fastforce
  have wrote: "\<exists>k \<le> length peeked. sentt t1 = take k peeked \<and> vwt t1 = vwt t0 \<and>
      (succeeded q \<longrightarrow> k = length peeked)"
  proof (cases "peeked = []")
    case False
    obtain q' t2 where w': "write_all ops peeked t0 = (q', t2)" by fastforce
    with w False have "t1 = t2" and "succeeded q \<Longrightarrow> succeeded q'"
      by (auto simp: io_try_def split: poll.splits)
    with write_all_sent [OF w'] empty show ?thesis by (metis append_Nil)
  qed (use w empty in auto)
  from wrote obtain k where k: "k \<le> length peeked" "sentt t1 = take k peeked" by blast
  show thesis
  proof (cases q rule: succeeded.cases)
    case (1 u)
    then have sent1: "sentt t1 = peeked" "vwt t1 = vwt t0" using wrote by auto
    obtain s c1 t2 where copy: "copy_bidirectional ops c t1 = (s, c1, t2)"
      by (metis prod_cases3)
    from copied [OF copy] obtain i j where ij: "i \<le> length (fst (vwc c))" "j \<le> length (fst (vwt t1))"
      "sentt t2 = sentt t1 @ take i (fst (vwc c))" "sentc c1 = sentc c @ take j (fst (vwt t1))"
      "full_copy i j (fst (vwc c)) (fst (vwt t1)) s" .
    from fb t0 w 1 copy have "c' = c1" "t' = t2" "r = Ready (Inr ()) \<Longrightarrow> \<exists>ud. s = Ready (Inr ud)"
      by (auto simp: handle_fallback_def split: poll.splits sum.splits)
    with ij sent1 show thesis
      by (intro that [OF t0, of "length peeked + i" j]) (auto simp: full_copy_def)
  next
    case (2 e)
    with fb t0 w have "c' = c" "t' = t1" "r \<noteq> Ready (Inr ())"
      by (auto simp: handle_fallback_def)
    with k show thesis
      by (intro that [OF t0, of k 0]) auto
  next
    case 3
    with fb t0 w have "c' = c" "t' = t1" "r \<noteq> Ready (Inr ())"
      by (auto simp: handle_fallback_def)
    with k show thesis
      by (intro that [OF t0, of k 0]) auto
  qed
qed

lemma fallback_unreachable:
  assumes "handle_fallback ops c peeked addr = (r, c', None)"
  shows "c' = c" and "r \<noteq> Ready (Inr ())"
  using assms by (auto simp: handle_fallback_def split: poll.splits sum.splits if_splits prod.splits)

text \<open>The fallback, on every outcome.\<close>

lemma fallback_run:
  assumes fb: "handle_fallback ops c peeked addr = (r, c', t')"
  shows "case t' of
      None \<Rightarrow> c' = c \<and> r \<noteq> Ready (Inr ())
    | Some b \<Rightarrow> \<exists>b0 back. tcp_connect ops addr = Ready (Inr b0) \<and>
        Sublist.prefix (sentt b) (peeked @ fst (vwc c)) \<and>
        sentc c' = sentc c @ back \<and> Sublist.prefix back (fst (vwt b0)) \<and>
        (r = Ready (Inr ()) \<longrightarrow> sentt b = peeked @ fst (vwc c) \<and> back = fst (vwt b0))"
proof (cases t')
  case None
  from fallback_unreachable [OF fb [unfolded None]] None show ?thesis by simp
next
  case (Some b)
  from fallback_forwards [OF fb [unfolded Some]] obtain b0 i j
    where "tcp_connect ops addr = Ready (Inr b0)" "sentt b = take i (peeked @ fst (vwc c))"
      "sentc c' = sentc c @ take j (fst (vwt b0))"
      "r = Ready (Inr ()) \<Longrightarrow> i = length (peeked @ fst (vwc c)) \<and> j = length (fst (vwt b0))"
    by metis
  then show ?thesis
    by (auto simp: Some take_is_prefix simp del: take_append)
qed

text \<open>Proxying to a target, on every outcome.\<close>

lemma tcp_run:
  assumes run: "handle_tcp ops c tgt s d = (s', r, c', t')"
  shows "case connect_target ops d tgt of
      Elapsed \<Rightarrow> r = Ready (Inl Timeout) \<and> c' = c \<and> s' = s \<and> t' = None
    | InTime (Inl e) \<Rightarrow>
        r = Ready (Inl (RemoteConnectFailed (io_message e))) \<and> c' = c \<and> s' = s \<and> t' = None
    | InTime (Inr b0) \<Rightarrow> \<exists>b back. t' = Some b \<and>
        Sublist.prefix (sentt b) (fst (vwc c)) \<and>
        sentc c' = sentc c @ back \<and> Sublist.prefix back (fst (vwt b0)) \<and>
        (if r = Ready (Inr ()) then
           sentt b = fst (vwc c) \<and> back = fst (vwt b0) \<and>
           s' = add_received (of_nat (length back)) (add_sent (of_nat (length (sentt b))) s)
         else s' = s)"
proof -
  have reached: ?thesis if b0: "connect_target ops d tgt = InTime (Inr b0)" for b0
  proof -
    obtain q c1 t1 where rel: "relay ops c b0 = (q, c1, t1)" by (metis prod_cases3)
    from relay_forwards [OF rel] obtain b i j where b: "t1 = Some b"
      "sentt b = sentt b0 @ take i (fst (vwc c))" "sentc c1 = sentc c @ take j (fst (vwt b0))"
      "full_copy i j (fst (vwc c)) (fst (vwt b0)) q" by metis
    have "sentt b0 = []" using b0 by (rule connect_target_empty)
    with b run b0 rel show ?thesis
      by (auto simp: handle_tcp_def full_copy_def take_is_prefix
          split: poll.splits sum.splits prod.splits)
  qed
  show ?thesis
  proof (cases "connect_target ops d tgt")
    case Elapsed
    with run show ?thesis by (simp add: handle_tcp_def)
  next
    case (InTime x)
    with run reached show ?thesis by (cases x) (simp_all add: handle_tcp_def)
  qed
qed

end

section \<open>In-memory streams\<close>

text \<open>
  A pair of connected in-memory streams (tokio's \<open>duplex\<close>, which the integration test of the relay
  uses): what will be read, and what has been written. A relay over closed streams copies
  everything; a broken stream fails it; an open one leaves it waiting.
\<close>

record duplex =
  d_in :: view
  d_sent :: bytes

definition duplex_write_all :: "bytes \<Rightarrow> (duplex, io_error, unit) io" where
  "duplex_write_all bs d = (Ready (Inr ()), d\<lparr>d_sent := d_sent d @ bs\<rparr>)"

fun relay_end :: "stream_end \<Rightarrow> stream_end \<Rightarrow> 'a \<Rightarrow> (io_error + 'a) poll" where
  "relay_end (Broken e) _ x = Ready (Inl e)"
| "relay_end _ (Broken e) x = Ready (Inl e)"
| "relay_end Closed Closed x = Ready (Inr x)"
| "relay_end _ _ x = Pending"

lemma relay_end_Inr: "relay_end a b x = Ready (Inr y) \<Longrightarrow> x = y"
  by (cases "(a, b, x)" rule: relay_end.cases) simp_all

definition duplex_copy ::
  "duplex \<Rightarrow> duplex \<Rightarrow> (io_error + u64 \<times> u64) poll \<times> duplex \<times> duplex" where
  "duplex_copy c t =
     (relay_end (snd (d_in c)) (snd (d_in t))
        (of_nat (length (fst (d_in c))), of_nat (length (fst (d_in t)))),
      \<lparr>d_in = ([], snd (d_in c)), d_sent = d_sent c @ fst (d_in t)\<rparr>,
      \<lparr>d_in = ([], snd (d_in t)), d_sent = d_sent t @ fst (d_in c)\<rparr>)"

definition duplex_connect :: "(rstring \<Rightarrow> view option) \<Rightarrow> rstring \<Rightarrow> io_error + duplex" where
  "duplex_connect net a =
     (case net a of
        None \<Rightarrow> Inl (IoError (OtherKind (ascii ''ConnectionRefused'')) (ascii ''refused''))
      | Some v \<Rightarrow> Inr \<lparr>d_in = v, d_sent = []\<rparr>)"

text \<open>The operations of a network that answers each address as \<open>net\<close> says.\<close>

definition duplex_ops :: "(rstring \<Rightarrow> view option) \<Rightarrow> (duplex, duplex) tunnel_ops" where
  "duplex_ops net = \<lparr>tcp_connect = \<lambda>a. Ready (duplex_connect net a),
     timed_connect_addr = \<lambda>d a. InTime (duplex_connect net (show_socket_addr a)),
     timed_connect_str = \<lambda>d a. InTime (duplex_connect net a),
     write_all = duplex_write_all, copy_bidirectional = duplex_copy\<rparr>"

definition prefixed_duplex_ops ::
  "(rstring \<Rightarrow> view option) \<Rightarrow> (duplex prefixed, duplex) tunnel_ops" where
  "prefixed_duplex_ops net = \<lparr>tcp_connect = tcp_connect (duplex_ops net),
     timed_connect_addr = timed_connect_addr (duplex_ops net),
     timed_connect_str = timed_connect_str (duplex_ops net),
     write_all = duplex_write_all,
     copy_bidirectional = (\<lambda>p t.
       case duplex_copy ((inner p)\<lparr>d_in := prefixed_view d_in p\<rparr>) t of
         (r, c, t) \<Rightarrow> (r, prefixed_new [] c, t))\<rparr>"

lemma duplex_connect_empty: "duplex_connect net a = Inr t \<Longrightarrow> d_sent t = []"
  by (auto simp: duplex_connect_def split: option.splits)

lemma write_law_duplex: "write_law d_in d_sent duplex_write_all"
  by (auto simp: write_law_def duplex_write_all_def)

lemma full_copy_relay_end:
  "full_copy (length a) (length b) a b (relay_end x y (of_nat (length a), of_nat (length b)))"
  by (auto simp: full_copy_def dest: relay_end_Inr)

lemma copy_all:
  "full_copy (length a) (length b) a b r \<Longrightarrow>
   \<exists>i \<le> length a. \<exists>j \<le> length b. a = take i a \<and> b = take j b \<and> full_copy i j a b r"
  by (intro exI [of _ "length a"] exI [of _ "length b"] conjI) simp_all

lemma copy_law_duplex: "copy_law d_in d_sent d_in d_sent duplex_copy"
  unfolding copy_law_def duplex_copy_def
  by (auto intro!: copy_all full_copy_relay_end)

lemma copy_law_prefixed:
  "copy_law (prefixed_view d_in) (d_sent \<circ> inner) d_in d_sent
     (copy_bidirectional (prefixed_duplex_ops net))"
  unfolding copy_law_def prefixed_duplex_ops_def duplex_copy_def
  by (auto simp: prefixed_new_def intro!: copy_all full_copy_relay_end)

lemma tunnel_laws_duplex: "tunnel_laws (duplex_ops net) d_in d_sent d_in d_sent"
  by (auto simp: tunnel_laws_def duplex_ops_def write_law_duplex copy_law_duplex
      dest: duplex_connect_empty)

lemma tunnel_laws_prefixed:
  "tunnel_laws (prefixed_duplex_ops net) (prefixed_view d_in) (d_sent \<circ> inner) d_in d_sent"
  using copy_law_prefixed [of net]
  by (auto simp: tunnel_laws_def prefixed_duplex_ops_def duplex_ops_def write_law_duplex
      dest: duplex_connect_empty)

interpretation duplex_tunnel: tunnel "duplex_ops net" d_in d_sent d_in d_sent for net
  by unfold_locales (rule tunnel_laws_duplex)

interpretation prefixed_tunnel: tunnel "prefixed_duplex_ops net"
    "prefixed_view d_in" "d_sent \<circ> inner" d_in d_sent for net
  by unfold_locales (rule tunnel_laws_prefixed)

section \<open>Properties\<close>

text \<open>
  C11. The fallback is transparent: whatever ends it, the backend has received an initial part of
  the client's byte stream from its very first byte (the peeked bytes, then the rest), the client
  has received nothing but what the backend sent, in order, and a successful fallback has passed
  everything on in both directions. If the backend cannot be reached the client receives nothing.
\<close>

theorem fallback_transparent:
  assumes laws: "tunnel_laws ops vwc sentc vwt sentt"
    and fb: "handle_fallback ops c peeked addr = (r, c', t')"
  shows "case t' of
      None \<Rightarrow> c' = c \<and> r \<noteq> Ready (Inr ())
    | Some b \<Rightarrow> \<exists>b0 back. tcp_connect ops addr = Ready (Inr b0) \<and>
        Sublist.prefix (sentt b) (peeked @ fst (vwc c)) \<and>
        sentc c' = sentc c @ back \<and> Sublist.prefix back (fst (vwt b0)) \<and>
        (r = Ready (Inr ()) \<longrightarrow> sentt b = peeked @ fst (vwc c) \<and> back = fst (vwt b0))"
  by (rule tunnel.fallback_run [OF tunnel.intro [OF laws] fb])

theorem fallback_transparent_witness:
  "case snd (snd (handle_fallback (duplex_ops [ascii ''web'' \<mapsto> ([0x34, 0x30], Closed)])
        \<lparr>d_in = ([0x54], Closed), d_sent = []\<rparr> [0x47, 0x45] (ascii ''web''))) of
      None \<Rightarrow> False
    | Some b \<Rightarrow> d_sent b = [0x47, 0x45, 0x54]"
proof -
  let ?net = "[ascii ''web'' \<mapsto> ([0x34, 0x30], Closed)]"
  let ?c = "\<lparr>d_in = ([0x54], Closed), d_sent = []\<rparr>"
  let ?b = "\<lparr>d_in = ([], Closed), d_sent = [0x47, 0x45, 0x54]\<rparr>"
  have run: "handle_fallback (duplex_ops ?net) ?c [0x47, 0x45] (ascii ''web'') =
      (Ready (Inr ()), \<lparr>d_in = ([], Closed), d_sent = [0x34, 0x30]\<rparr>, Some ?b)"
    by (simp add: handle_fallback_def duplex_ops_def duplex_connect_def io_try_def
        duplex_write_all_def duplex_copy_def)
  from fallback_transparent [OF tunnel_laws_duplex run] run show ?thesis by simp
qed

text \<open>
  C12. \<open>handle_tcp\<close> on every outcome: a target that cannot be reached in time is an error that leaves
  the client and the session's counters as they were; otherwise the target has received an initial
  part of the client's bytes and the client an initial part of the target's, the counters change
  only on success, and then everything was passed on and they grew by exactly the bytes copied.
\<close>

theorem handle_tcp_forwards:
  assumes laws: "tunnel_laws ops vwc sentc vwt sentt"
    and run: "handle_tcp ops c tgt s d = (s', r, c', t')"
  shows "case connect_target ops d tgt of
      Elapsed \<Rightarrow> r = Ready (Inl Timeout) \<and> c' = c \<and> s' = s \<and> t' = None
    | InTime (Inl e) \<Rightarrow>
        r = Ready (Inl (RemoteConnectFailed (io_message e))) \<and> c' = c \<and> s' = s \<and> t' = None
    | InTime (Inr b0) \<Rightarrow> \<exists>b back. t' = Some b \<and>
        Sublist.prefix (sentt b) (fst (vwc c)) \<and>
        sentc c' = sentc c @ back \<and> Sublist.prefix back (fst (vwt b0)) \<and>
        (if r = Ready (Inr ()) then
           sentt b = fst (vwc c) \<and> back = fst (vwt b0) \<and>
           s' = add_received (of_nat (length back)) (add_sent (of_nat (length (sentt b))) s)
         else s' = s)"
  by (rule tunnel.tcp_run [OF tunnel.intro [OF laws] run])

theorem handle_tcp_forwards_witness:
  "let s = fst (session_new 7 0 (V4 (Ipv4Addr 1 2 3 4) 9) (Domain (ascii ''a'') 8) Connect);
       (s', r, c', t') = handle_tcp (duplex_ops [ascii ''a:8'' \<mapsto> ([1, 2], Closed)])
         \<lparr>d_in = ([3, 4, 5], Closed), d_sent = []\<rparr> (Domain (ascii ''a'') 8) s 300
   in r = Ready (Inr ()) \<and> s' = add_received 2 (add_sent 3 s) \<and> d_sent c' = [1, 2]"
proof -
  let ?net = "[ascii ''a:8'' \<mapsto> ([1, 2], Closed)]"
  let ?c = "\<lparr>d_in = ([3, 4, 5], Closed), d_sent = []\<rparr>"
  let ?s = "fst (session_new 7 0 (V4 (Ipv4Addr 1 2 3 4) 9) (Domain (ascii ''a'') 8) Connect)"
  have key: "ascii ''a'' @ ascii '':'' @ show_dec (uint (8 :: u16)) = ascii ''a:8''"
    by (simp add: eval_simps show_dec_def show_radix.simps digit_def)
  have conn: "connect_target (duplex_ops ?net) 300 (Domain (ascii ''a'') 8) =
      InTime (Inr \<lparr>d_in = ([1, 2], Closed), d_sent = []\<rparr>)"
    by (simp only: connect_target.simps key) (simp add: duplex_ops_def duplex_connect_def)
  obtain s' r c' t' where run: "handle_tcp (duplex_ops ?net) ?c (Domain (ascii ''a'') 8) ?s 300 =
      (s', r, c', t')" by (metis prod_cases4)
  have "r = Ready (Inr ())"
    using run conn by (auto simp: handle_tcp_def relay_def duplex_ops_def duplex_copy_def)
  with handle_tcp_forwards [OF tunnel_laws_duplex run] run conn show ?thesis
    by (auto simp: Let_def)
qed

end
