(* ===== verification/Udp.thy ===== *)
theory Udp
  imports UdpFrames Tunnel
begin

text \<open>
  src/proxy/udp.rs, \<open>handle_udp\<close>: the loop of a UDP association. Each round waits, under a
  timeout, for a frame of the client or a datagram of the network (\<open>tokio::select!\<close>), whichever
  future completes first, and drops the other. The order and the times in which things happen are an explicit
  sequence of turns; dropping the client's half-read frame loses the bytes it had taken.
\<close>

section \<open>The operations\<close>

text \<open>
  The client's stream, and the network: the socket and the resolver share the state \<open>'u\<close>.
\<close>

record ('c, 'u) udp_ops =
  udp_reader :: "'c async_reader"
  udp_write_all :: "bytes \<Rightarrow> ('c, io_error, unit) io"
  udp_bind :: "rstring \<Rightarrow> (io_error + 'u) poll"
  udp_local_addr :: "'u \<Rightarrow> io_error + socket_addr"
  lookup_host :: "rstring \<Rightarrow> u16 \<Rightarrow> ('u, io_error, socket_addr list) io"
  send_to :: "bytes \<Rightarrow> socket_addr \<Rightarrow> ('u, io_error, nat) io"

text \<open>
  What happens next to an association that waits: bytes of the client arrive, after which its
  stream may end; the round is polled (\<open>select!\<close>, whose client branch may be ready, and the timer); a datagram
  is there to be received, and the client branch is polled before it or not (\<open>select!\<close> polls in random order).
\<close>

datatype udp_turn =
    Arrive bytes stream_end
  | Wake
  | Datagram bool "io_error + bytes \<times> socket_addr"

text \<open>
  A turn with the time at which it happens, and the time at which what it leads to is done: the
  next round starts then. Times are in nanoseconds, from any start.
\<close>

type_synonym timed_turn = "nanos \<times> nanos \<times> udp_turn"

fun turn_of :: "timed_turn \<Rightarrow> udp_turn" where "turn_of (t, u, turn) = turn"

abbreviation turns_of :: "timed_turn list \<Rightarrow> udp_turn list" where
  "turns_of turns \<equiv> map turn_of turns"

datatype udp_event =
    Client "udp_frame option res"
  | Remote "io_error + bytes \<times> socket_addr"

text \<open>
  The state of an association. \<open>us_client\<close> is the client's stream as it is: what the \<open>read_udp_frame\<close>
  future of the present round has taken from it is gone. \<open>us_reading\<close> is that future, once it has been
  polled and waits: the stream with the bytes it holds put back. Polling it again
  gives what reading that stream from the start gives.
\<close>

record ('c, 'u) udp_state =
  us_client :: 'c
  us_reading :: "'c option"
  us_net :: 'u
  us_session :: session

definition resumed :: "('c, 'u) udp_state \<Rightarrow> 'c" where
  "resumed st = (case us_reading st of None \<Rightarrow> us_client st | Some c \<Rightarrow> c)"

lemma resumed_simps [simp]:
  "us_reading st = None \<Longrightarrow> resumed st = us_client st"
  "resumed (st\<lparr>us_reading := None\<rparr>) = us_client st"
  "resumed (st\<lparr>us_client := c, us_reading := None\<rparr>) = c"
  "resumed (st\<lparr>us_client := c, us_reading := Some c0\<rparr>) = c0"
  by (simp_all add: resumed_def)

datatype udp_flow = Continue | Break | Return trojan_error

section \<open>The code\<close>

text \<open>
  One poll of \<open>timeout(udp_timeout, select! { ... })\<close>: the event that ends the round, or \<^const>\<open>None\<close>
  when it goes on. \<open>Timeout\<close> polls its future first and then its timer (\<open>elapsed\<close>: whether that has come
  to its deadline). A client branch that is ready wins when it is polled first. When another
  branch ends the round the future of the client branch is dropped, and with it what it has taken.
\<close>

definition udp_select ::
  "('c, 'u) udp_ops \<Rightarrow> bool \<Rightarrow> udp_turn \<Rightarrow> ('c, 'u) udp_state \<Rightarrow>
   udp_event timed option \<times> ('c, 'u) udp_state" where
  "udp_select ops elapsed turn st =
     (case turn of
        Arrive _ _ \<Rightarrow> (None, st)
      | Wake \<Rightarrow>
          (case read_udp_frame (udp_reader ops) (resumed st) of
             (Ready frame, c) \<Rightarrow>
               (Some (InTime (Client frame)), st\<lparr>us_client := c, us_reading := None\<rparr>)
           | (Pending, c) \<Rightarrow>
               if elapsed then (Some Elapsed, st\<lparr>us_client := c, us_reading := None\<rparr>)
               else (None, st\<lparr>us_client := c, us_reading := Some (resumed st)\<rparr>))
      | Datagram client_first recv \<Rightarrow>
          if client_first then
            (case read_udp_frame (udp_reader ops) (resumed st) of
               (Ready frame, c) \<Rightarrow>
                 (Some (InTime (Client frame)), st\<lparr>us_client := c, us_reading := None\<rparr>)
             | (Pending, c) \<Rightarrow>
                 (Some (InTime (Remote recv)), st\<lparr>us_client := c, us_reading := None\<rparr>))
          else (Some (InTime (Remote recv)), st\<lparr>us_reading := None\<rparr>))"

text \<open>
  The body of a round. \<open>recv_from\<close> fills the buffer of \<open>UDP_BUFFER_SIZE\<close> bytes; what of a
  datagram does not fit is discarded.
\<close>

definition udp_handle_event ::
  "('c, 'u) udp_ops \<Rightarrow> udp_event timed \<Rightarrow> ('c, 'u) udp_state \<Rightarrow>
   udp_flow poll \<times> ('c, 'u) udp_state" where
  "udp_handle_event ops event st =
     (case event of
        Elapsed \<Rightarrow> (Ready Break, st)
      | InTime (Client (Inr (Some frame))) \<Rightarrow>
          (case resolve_target (lookup_host ops) (f_address frame) (us_net st) of
             (Pending, u) \<Rightarrow> (Pending, st\<lparr>us_net := u\<rparr>)
           | (Ready (Inl e), u) \<Rightarrow> (Ready Continue, st\<lparr>us_net := u\<rparr>)
           | (Ready (Inr tgt), u) \<Rightarrow>
               (case send_to ops (f_payload frame) tgt u of
                  (Pending, u) \<Rightarrow> (Pending, st\<lparr>us_net := u\<rparr>)
                | (Ready (Inl e), u) \<Rightarrow> (Ready Continue, st\<lparr>us_net := u\<rparr>)
                | (Ready (Inr _), u) \<Rightarrow>
                    (Ready Continue, st\<lparr>us_net := u, us_session :=
                       add_sent (of_nat (length (f_payload frame))) (us_session st)\<rparr>)))
      | InTime (Client (Inr None)) \<Rightarrow> (Ready Break, st)
      | InTime (Client (Inl e)) \<Rightarrow> (Ready (Return e), st)
      | InTime (Remote (Inr (datagram, source_addr))) \<Rightarrow>
          (let received = take UDP_BUFFER_SIZE datagram in
           case build_udp_frame source_addr received of
             Inl e \<Rightarrow> (Ready (Return e), st)
           | Inr frame \<Rightarrow>
               (case udp_write_all ops frame (us_client st) of
                  (Pending, c) \<Rightarrow> (Pending, st\<lparr>us_client := c\<rparr>)
                | (Ready (Inl e), c) \<Rightarrow> (Ready (Return (Io e)), st\<lparr>us_client := c\<rparr>)
                | (Ready (Inr _), c) \<Rightarrow>
                    (Ready Continue, st\<lparr>us_client := c, us_session :=
                       add_received (of_nat (length received)) (us_session st)\<rparr>)))
      | InTime (Remote (Inl e)) \<Rightarrow> (Ready (Return (Io e)), st))"

text \<open>Bytes that arrive come behind those that are there, whether or not some of these are taken.\<close>

definition udp_arrive ::
  "(bytes \<Rightarrow> stream_end \<Rightarrow> 'c \<Rightarrow> 'c) \<Rightarrow> bytes \<Rightarrow> stream_end \<Rightarrow> ('c, 'u) udp_state \<Rightarrow> ('c, 'u) udp_state" where
  "udp_arrive arrive bs fin st = st\<lparr>us_client := arrive bs fin (us_client st),
     us_reading := map_option (arrive bs fin) (us_reading st)\<rparr>"

text \<open>
  The loop of \<open>handle_udp\<close>, in a round that started at \<open>started\<close>, over the turns that happen. The first
  component says since when the round goes on in which the loop waits when its turns run out; \<^const>\<open>None\<close>: it
  has been left, or a handler waits, which is under no timeout. \<open>arrive\<close> is how the
  client's stream takes in bytes from the network.
\<close>

fun udp_loop ::
  "('c, 'u) udp_ops \<Rightarrow> (bytes \<Rightarrow> stream_end \<Rightarrow> 'c \<Rightarrow> 'c) \<Rightarrow> nanos \<Rightarrow> nanos \<Rightarrow> timed_turn list \<Rightarrow>
   ('c, 'u) udp_state \<Rightarrow> nanos option \<times> (trojan_error + unit) poll \<times> ('c, 'u) udp_state" where
  "udp_loop ops arrive udp_timeout started [] st = (Some started, Pending, st)"
| "udp_loop ops arrive udp_timeout started ((t, u, Arrive bs fin) # turns) st =
     udp_loop ops arrive udp_timeout started turns (udp_arrive arrive bs fin st)"
| "udp_loop ops arrive udp_timeout started ((t, u, turn) # turns) st =
     (case udp_select ops (started + udp_timeout \<le> t) turn st of
        (None, st) \<Rightarrow> udp_loop ops arrive udp_timeout started turns st
      | (Some event, st) \<Rightarrow>
          (case udp_handle_event ops event st of
             (Ready Continue, st) \<Rightarrow> udp_loop ops arrive udp_timeout u turns st
           | (Ready Break, st) \<Rightarrow> (None, Ready (Inr ()), st)
           | (Ready (Return e), st) \<Rightarrow> (None, Ready (Inl e), st)
           | (Pending, st) \<Rightarrow> (None, Pending, st)))"

text \<open>The whole of \<open>handle_udp\<close>, whose loop is entered at \<open>started\<close>.\<close>

definition handle_udp ::
  "('c, 'u) udp_ops \<Rightarrow> (bytes \<Rightarrow> stream_end \<Rightarrow> 'c \<Rightarrow> 'c) \<Rightarrow> 'c \<Rightarrow> session \<Rightarrow> nanos \<Rightarrow> rstring \<Rightarrow>
   nanos \<Rightarrow> timed_turn list \<Rightarrow> (trojan_error + unit) poll \<times> 'c \<times> 'u option \<times> session" where
  "handle_udp ops arrive client_stream session udp_timeout udp_bind_addr started turns =
     (case udp_bind ops udp_bind_addr of
        Pending \<Rightarrow> (Pending, client_stream, None, session)
      | Ready (Inl e) \<Rightarrow>
          (Ready (Inl (Config (ascii ''Failed to bind UDP socket on '' @ udp_bind_addr @
             ascii '': '' @ io_message e))), client_stream, None, session)
      | Ready (Inr udp_socket) \<Rightarrow>
          (case udp_local_addr ops udp_socket of
             Inl e \<Rightarrow> (Ready (Inl (Io e)), client_stream, Some udp_socket, session)
           | Inr _ \<Rightarrow>
               (case udp_loop ops arrive udp_timeout started turns
                  \<lparr>us_client = client_stream, us_reading = None, us_net = udp_socket,
                    us_session = session\<rparr> of
                  (_, r, st) \<Rightarrow> (r, us_client st, Some (us_net st), us_session st))))"

section \<open>What the loop relies on\<close>

text \<open>
  Reading does not change what has been written to the client; writing and reading behave as
  documented; a read that waits has taken all bytes that were there (a poll of \<open>AsyncRead\<close> is only
  pending when there is nothing to read); arriving bytes are appended while the stream is open, and nothing
  arrives after its end; the log of the network holds
  the datagrams sent, in order, and only a successful \<open>send_to\<close> extends it.
\<close>

definition keeps :: "('s \<Rightarrow> 'b) \<Rightarrow> ('s, 'e, 'a) io \<Rightarrow> bool" where
  "keeps g m \<longleftrightarrow> (\<forall>s. g (snd (m s)) = g s)"

definition drains :: "('s \<Rightarrow> view) \<Rightarrow> ('s, 'e, 'a) io \<Rightarrow> bool" where
  "drains vw m \<longleftrightarrow> (\<forall>s. fst (m s) = Pending \<longrightarrow> vw (snd (m s)) = ([], Open))"

definition send_law ::
  "('u \<Rightarrow> (socket_addr \<times> bytes) list) \<Rightarrow> (bytes \<Rightarrow> socket_addr \<Rightarrow> ('u, io_error, nat) io) \<Rightarrow> bool" where
  "send_law log m \<longleftrightarrow> (\<forall>payload tgt u r u'. m payload tgt u = (r, u') \<longrightarrow>
     log u' = log u @ (if succeeded r then [(tgt, payload)] else []))"

definition udp_laws ::
  "('c, 'u) udp_ops \<Rightarrow> (bytes \<Rightarrow> stream_end \<Rightarrow> 'c \<Rightarrow> 'c) \<Rightarrow> ('c \<Rightarrow> view) \<Rightarrow> ('c \<Rightarrow> bytes) \<Rightarrow>
   ('u \<Rightarrow> (socket_addr \<times> bytes) list) \<Rightarrow> io_error \<Rightarrow> bool" where
  "udp_laws ops arrive vw sent log eof \<longleftrightarrow>
     byte_stream_laws (udp_reader ops) vw eof \<and>
     (\<forall>n. keeps sent (rd_exact (udp_reader ops) n)) \<and>
     keeps sent (rd_u8 (udp_reader ops)) \<and> keeps sent (rd_u16 (udp_reader ops)) \<and>
     (\<forall>n. drains vw (rd_exact (udp_reader ops) n)) \<and>
     drains vw (rd_u8 (udp_reader ops)) \<and> drains vw (rd_u16 (udp_reader ops)) \<and>
     write_law vw sent (udp_write_all ops) \<and>
     (\<forall>bs fin c. sent (arrive bs fin c) = sent c) \<and>
     (\<forall>bs fin c. vw (arrive bs fin c) =
        (if snd (vw c) = Open then (fst (vw c) @ bs, fin) else vw c)) \<and>
     (\<forall>a u. udp_bind ops a = Ready (Inr u) \<longrightarrow> log u = []) \<and>
     (\<forall>d p. keeps log (lookup_host ops d p)) \<and>
     send_law log (send_to ops)"

lemma keeps_ret [sim_intros]: "keeps g (ret x)"
  by (simp add: keeps_def)

lemma keeps_throw [sim_intros]: "keeps g (throw e)"
  by (simp add: keeps_def)

lemma keeps_await [sim_intros]:
  "keeps g m \<Longrightarrow> (\<And>x. keeps g (f x)) \<Longrightarrow> keeps g (await m f)"
  unfolding keeps_def await_def
  by (auto split: prod.splits poll.splits sum.splits) (metis snd_conv)+

lemma keeps_io_try [sim_intros]: "keeps g m \<Longrightarrow> keeps g (io_try m)"
  unfolding keeps_def io_try_def
  by (auto split: prod.splits poll.splits) (metis snd_conv)+

lemma keeps_if [sim_intros]: "keeps g m \<Longrightarrow> keeps g n \<Longrightarrow> keeps g (if b then m else n)"
  by simp

lemma keeps_apply: "keeps g m \<Longrightarrow> m s = (r, t) \<Longrightarrow> g t = g s"
  unfolding keeps_def by (metis snd_conv)

lemma drains_ret [sim_intros]: "drains vw (ret x)"
  by (simp add: drains_def ret_def)

lemma drains_throw [sim_intros]: "drains vw (throw e)"
  by (simp add: drains_def throw_def)

lemma drains_if [sim_intros]: "drains vw m \<Longrightarrow> drains vw n \<Longrightarrow> drains vw (if b then m else n)"
  by simp

lemma drains_await [sim_intros]:
  "drains vw m \<Longrightarrow> (\<And>x. drains vw (f x)) \<Longrightarrow> drains vw (await m f)"
  unfolding drains_def await_def
  by (auto split: prod.splits poll.splits sum.splits) (metis fst_conv snd_conv)+

lemma drains_io_try [sim_intros]: "drains vw m \<Longrightarrow> drains vw (io_try m)"
  unfolding drains_def io_try_def
  by (auto split: prod.splits poll.splits) (metis fst_conv snd_conv)+

lemma drains_apply: "drains vw m \<Longrightarrow> m s = (Pending, t) \<Longrightarrow> vw t = ([], Open)"
  unfolding drains_def by (metis fst_conv snd_conv)

text \<open>The bytes a received datagram becomes on the client's stream.\<close>

definition datagram_bytes :: "bytes \<times> socket_addr \<Rightarrow> bytes" where
  "datagram_bytes d =
     (case build_udp_frame (snd d) (take UDP_BUFFER_SIZE (fst d)) of Inr w \<Rightarrow> w | Inl _ \<Rightarrow> [])"

definition received_size :: "bytes \<times> socket_addr \<Rightarrow> nat" where
  "received_size d = min UDP_BUFFER_SIZE (length (fst d))"

lemma build_received:
  "build_udp_frame src (take UDP_BUFFER_SIZE data) = Inr (datagram_bytes (data, src))"
  using build_udp_frame_ok [of "take UDP_BUFFER_SIZE data" src]
  by (auto simp: datagram_bytes_def UDP_BUFFER_SIZE_def)

text \<open>The datagrams the turns offer, and the bytes that arrive from the client.\<close>

fun datagram_of :: "udp_turn \<Rightarrow> (bytes \<times> socket_addr) list" where
  "datagram_of (Datagram _ (Inr d)) = [d]"
| "datagram_of _ = []"

definition offered :: "udp_turn list \<Rightarrow> (bytes \<times> socket_addr) list" where
  "offered turns = concat (map datagram_of turns)"

text \<open>The bytes of the client that arrive, up to the end of its stream.\<close>

fun arrived :: "stream_end \<Rightarrow> udp_turn list \<Rightarrow> bytes" where
  "arrived fin [] = []"
| "arrived Open (Arrive bs fin # ts) = bs @ arrived fin ts"
| "arrived fin (_ # ts) = arrived fin ts"

lemma offered_simps [simp]:
  "offered [] = []" "offered (t # ts) = datagram_of t @ offered ts"
  by (simp_all add: offered_def)

text \<open>A turn other than an arrival is a poll of \<open>select!\<close>.\<close>

fun polls :: "udp_turn \<Rightarrow> bool" where
  "polls (Arrive _ _) \<longleftrightarrow> False"
| "polls _ \<longleftrightarrow> True"

lemma udp_loop_polls:
  "polls turn \<Longrightarrow> udp_loop ops arrive d started ((t, u, turn) # turns) st =
     (case udp_select ops (started + d \<le> t) turn st of
        (None, st) \<Rightarrow> udp_loop ops arrive d started turns st
      | (Some event, st) \<Rightarrow>
          (case udp_handle_event ops event st of
             (Ready Continue, st) \<Rightarrow> udp_loop ops arrive d u turns st
           | (Ready Break, st) \<Rightarrow> (None, Ready (Inr ()), st)
           | (Ready (Return e), st) \<Rightarrow> (None, Ready (Inl e), st)
           | (Pending, st) \<Rightarrow> (None, Pending, st)))"
  by (cases turn) simp_all

lemma arrived_polls: "polls turn \<Longrightarrow> arrived fin (turn # turns) = arrived fin turns"
  by (cases turn; cases fin) simp_all

text \<open>
  What an association does between two states: the datagrams \<open>ls\<close> it sends, the datagrams \<open>ds\<close>
  it delivers to the client, what it has written of a frame whose write did not finish, and the
  counters.
\<close>

definition accounts ::
  "('c \<Rightarrow> bytes) \<Rightarrow> ('u \<Rightarrow> (socket_addr \<times> bytes) list) \<Rightarrow> ('c, 'u) udp_state \<Rightarrow> ('c, 'u) udp_state \<Rightarrow>
   (socket_addr \<times> bytes) list \<Rightarrow> (bytes \<times> socket_addr) list \<Rightarrow> bytes \<Rightarrow> bool" where
  "accounts sent log st st' ls ds part \<longleftrightarrow>
     log (us_net st') = log (us_net st) @ ls \<and>
     sent (us_client st') = sent (us_client st) @ concat (map datagram_bytes ds) @ part \<and>
     bytes_sent (us_session st') =
       bytes_sent (us_session st) + of_nat (sum_list (map (length \<circ> snd) ls)) \<and>
     bytes_received (us_session st') =
       bytes_received (us_session st) + of_nat (sum_list (map received_size ds))"

lemma accounts_refl: "accounts sent log st st [] [] []"
  by (simp add: accounts_def)

lemma accounts_trans:
  "accounts sent log st st1 ls ds [] \<Longrightarrow> accounts sent log st1 st2 ls' ds' part \<Longrightarrow>
   accounts sent log st st2 (ls @ ls') (ds @ ds') part"
  by (simp add: accounts_def add.assoc)

lemma accounts_client:
  "sent c = sent (us_client st) \<Longrightarrow>
   accounts sent log (st\<lparr>us_client := c\<rparr>) st' ls ds part \<longleftrightarrow> accounts sent log st st' ls ds part"
  by (simp add: accounts_def)

text \<open>A datagram sent for a frame: its payload, to its address when that is not a name.\<close>

definition sent_for :: "udp_frame \<Rightarrow> socket_addr \<times> bytes \<Rightarrow> bool" where
  "sent_for frame d \<longleftrightarrow> snd d = f_payload frame \<and>
     (case f_address frame of IPv4 a \<Rightarrow> fst d = a | IPv6 a \<Rightarrow> fst d = a | Domain _ _ \<Rightarrow> True)"

text \<open>
  What the client's stream is taken apart into: frames, and the bytes of half-read frames that
  were dropped.
\<close>

fun piece_ok :: "io_error \<Rightarrow> udp_frame option \<times> bytes \<Rightarrow> bool" where
  "piece_ok eof (Some f, w) \<longleftrightarrow> wire_frame f w"
| "piece_ok eof (None, g) \<longleftrightarrow> fst (read_udp_frame (view_reader eof 0) (g, Open)) = Pending"

definition frames_in :: "(udp_frame option \<times> bytes) list \<Rightarrow> udp_frame list" where
  "frames_in pieces = List.map_filter fst pieces"

definition losses :: "(udp_frame option \<times> bytes) list \<Rightarrow> nat" where
  "losses pieces = length (filter (\<lambda>p. fst p = None) pieces)"

text \<open>
  Datagrams that are, in order, frames of the client's stream, of which at most \<open>n\<close> pieces
  between frames were lost.
\<close>

definition in_order :: "io_error \<Rightarrow> bytes \<Rightarrow> nat \<Rightarrow> (socket_addr \<times> bytes) list \<Rightarrow> bool" where
  "in_order eof stream n ls \<longleftrightarrow> (\<exists>pieces fs'. list_all (piece_ok eof) pieces \<and>
     Sublist.prefix (concat (map snd pieces)) stream \<and> losses pieces \<le> n \<and>
     subseq fs' (frames_in pieces) \<and> list_all2 sent_for fs' ls)"

lemma pieces_simps [simp]:
  "frames_in [] = []" "frames_in ((Some f, w) # ps) = f # frames_in ps"
  "frames_in ((None, w) # ps) = frames_in ps"
  "losses [] = 0" "losses ((Some f, w) # ps) = losses ps" "losses ((None, w) # ps) = Suc (losses ps)"
  by (simp_all add: frames_in_def losses_def map_filter_simps)

lemma in_order_Nil: "in_order eof stream n []"
  unfolding in_order_def by (intro exI [of _ "[]"]) simp

lemma in_order_mono: "in_order eof stream n ls \<Longrightarrow> n \<le> n' \<Longrightarrow> in_order eof stream n' ls"
  unfolding in_order_def by (meson order.trans)

lemma in_order_frame:
  assumes "wire_frame f w" and "ls = [] \<or> (\<exists>d. ls = [d] \<and> sent_for f d)" and "in_order eof rest n ls'"
  shows "in_order eof (w @ rest) n (ls @ ls')"
proof -
  from assms(3) obtain pieces fs' where "list_all (piece_ok eof) pieces"
    "Sublist.prefix (concat (map snd pieces)) rest" "losses pieces \<le> n"
    "subseq fs' (frames_in pieces)" "list_all2 sent_for fs' ls'"
    unfolding in_order_def by blast
  with assms(1,2) show ?thesis
    unfolding in_order_def
    by (intro exI [of _ "(Some f, w) # pieces"] exI [of _ "if ls = [] then fs' else f # fs'"]) auto
qed

lemma in_order_loss:
  assumes "piece_ok eof (None, g)" and "in_order eof rest n ls"
  shows "in_order eof (g @ rest) (Suc n) ls"
proof -
  from assms(2) obtain pieces fs' where "list_all (piece_ok eof) pieces"
    "Sublist.prefix (concat (map snd pieces)) rest" "losses pieces \<le> n"
    "subseq fs' (frames_in pieces)" "list_all2 sent_for fs' ls"
    unfolding in_order_def by blast
  with assms(1) show ?thesis
    unfolding in_order_def
    by (intro exI [of _ "(None, g) # pieces"] exI [of _ fs']) auto
qed

locale udp_relay =
  fixes ops :: "('c, 'u) udp_ops"
    and arrive :: "bytes \<Rightarrow> stream_end \<Rightarrow> 'c \<Rightarrow> 'c"
    and vw :: "'c \<Rightarrow> view" and sent :: "'c \<Rightarrow> bytes"
    and log :: "'u \<Rightarrow> (socket_addr \<times> bytes) list" and eof :: io_error
  assumes laws: "udp_laws ops arrive vw sent log eof"
begin

lemma reader_laws: "byte_stream_laws (udp_reader ops) vw eof"
  using laws by (simp add: udp_laws_def)

lemma frame_keeps_sent:
  assumes "read_udp_frame (udp_reader ops) c = (r, c')"
  shows "sent c' = sent c"
proof -
  have k: "\<And>n. keeps sent (rd_exact (udp_reader ops) n)" "keeps sent (rd_u8 (udp_reader ops))"
    "keeps sent (rd_u16 (udp_reader ops))"
    using laws by (simp_all add: udp_laws_def)
  have addr: "keeps sent (read_target_address (udp_reader ops) t)" for t
    unfolding read_target_address_def by (intro sim_intros k)
  have body: "keeps sent (await (read_udp_body (udp_reader ops) t) (\<lambda>f. ret (Some f)))" for t
    unfolding read_udp_body_def by (intro sim_intros k addr)
  obtain q c1 where u8: "rd_u8 (udp_reader ops) c = (q, c1)" by fastforce
  then have "sent c1 = sent c" using k(2) by (blast intro: keeps_apply)
  with assms u8 body show ?thesis
    by (auto simp: read_udp_frame_def split: poll.splits sum.splits if_splits
        dest: keeps_apply [OF body])
qed

lemma frame_drains:
  assumes "read_udp_frame (udp_reader ops) c = (Pending, c')"
  shows "vw c' = ([], Open)"
proof -
  have k: "\<And>n. drains vw (rd_exact (udp_reader ops) n)" "drains vw (rd_u8 (udp_reader ops))"
    "drains vw (rd_u16 (udp_reader ops))"
    using laws by (simp_all add: udp_laws_def)
  have addr: "drains vw (read_target_address (udp_reader ops) t)" for t
    unfolding read_target_address_def by (intro sim_intros k)
  have body: "drains vw (await (read_udp_body (udp_reader ops) t) (\<lambda>f. ret (Some f)))" for t
    unfolding read_udp_body_def by (intro sim_intros k addr)
  obtain q c1 where u8: "rd_u8 (udp_reader ops) c = (q, c1)" by fastforce
  with assms show ?thesis
    using drains_apply [OF k(2)] drains_apply [OF body]
    by (auto simp: read_udp_frame_def ret_def throw_def split: poll.splits sum.splits if_splits)
qed

lemma frame_poll:
  assumes "vw c = v"
  shows "fst (read_udp_frame (udp_reader ops) c) = fst (read_udp_frame (view_reader eof 0) v)"
  using byte_stream.read_udp_frame_result [OF byte_stream.intro [OF reader_laws], of c 0] assms by simp

text \<open>What is written to the client does not depend on whether a future holds bytes read from it.\<close>

definition settled_state :: "('c, 'u) udp_state \<Rightarrow> bool" where
  "settled_state st \<longleftrightarrow> sent (resumed st) = sent (us_client st)"

lemma fresh_settled: "us_reading st = None \<Longrightarrow> settled_state st"
  by (simp add: settled_state_def resumed_def)

lemma arrive_settled:
  assumes "settled_state st"
  shows "settled_state (udp_arrive arrive bs fin st) \<and>
    sent (us_client (udp_arrive arrive bs fin st)) = sent (us_client st)"
  using assms laws by (auto simp: settled_state_def resumed_def udp_arrive_def udp_laws_def split: option.splits)

lemma select_settled:
  assumes "udp_select ops elapsed turn st = (e, st')" and "settled_state st"
  shows "settled_state st' \<and> sent (us_client st') = sent (us_client st) \<and> us_net st' = us_net st \<and>
    us_session st' = us_session st \<and> (e \<noteq> None \<longrightarrow> us_reading st' = None)"
proof (cases turn)
  case (Arrive bs fin)
  with assms show ?thesis by (auto simp: udp_select_def)
qed (use assms in \<open>auto simp: udp_select_def settled_state_def dest: frame_keeps_sent
  split: prod.splits poll.splits if_splits\<close>)

lemma select_settled_reading:
  "udp_select ops elapsed turn st = (Some ev, st') \<Longrightarrow> us_reading st' = None"
  by (auto simp: udp_select_def split: udp_turn.splits prod.splits poll.splits if_splits)

lemma select_remote:
  "udp_select ops elapsed t st = (Some (InTime (Remote q)), st') \<Longrightarrow> \<exists>b. t = Datagram b q"
  by (auto simp: udp_select_def split: udp_turn.splits prod.splits poll.splits if_splits)

lemma write_all_sent:
  assumes "udp_write_all ops bs c = (r, c')"
  shows "vw c' = vw c \<and> (\<exists>k \<le> length bs. sent c' = sent c @ take k bs \<and> (succeeded r \<longrightarrow> k = length bs))"
proof -
  have "write_law vw sent (udp_write_all ops)" using laws by (simp add: udp_laws_def)
  with assms show ?thesis unfolding write_law_def by blast
qed

lemma resolve_keeps_log:
  assumes "resolve_target (lookup_host ops) a u = (r, u')"
  shows "log u' = log u"
proof -
  have "keeps log (lookup_host ops d p)" for d p using laws by (simp add: udp_laws_def)
  with assms show ?thesis
    by (cases a) (auto simp: resolve_target_def split: prod.splits poll.splits sum.splits list.splits
        dest: keeps_apply)
qed

lemma send_to_log:
  assumes "send_to ops payload tgt u = (r, u')"
  shows "log u' = log u @ (if succeeded r then [(tgt, payload)] else [])"
proof -
  have "send_law log (send_to ops)" using laws by (simp add: udp_laws_def)
  with assms show ?thesis unfolding send_law_def by blast
qed

lemma resolve_target_addr:
  assumes "resolve_target (lookup_host ops) (f_address frame) u = (Ready (Inr tgt), u')"
  shows "sent_for frame (tgt, f_payload frame)"
  using assms
  by (auto simp: resolve_target_def sent_for_def split: address.splits)

text \<open>One round.\<close>

lemma round_client:
  assumes "udp_handle_event ops (InTime (Client (Inr (Some frame)))) st = (f, st')"
  obtains ls where "accounts sent log st st' ls [] []" "us_client st' = us_client st"
    "ls = [] \<or> (\<exists>d. ls = [d] \<and> sent_for frame d)" "f = Ready Continue \<or> f = Pending"
proof -
  obtain q u where res: "resolve_target (lookup_host ops) (f_address frame) (us_net st) = (q, u)"
    by fastforce
  note log1 = resolve_keeps_log [OF res]
  show thesis
  proof (cases "\<exists>tgt. q = Ready (Inr tgt)")
    case True
    then obtain tgt where q: "q = Ready (Inr tgt)" by blast
    obtain q' u' where snd: "send_to ops (f_payload frame) tgt u = (q', u')" by fastforce
    note log2 = send_to_log [OF snd]
    have d: "sent_for frame (tgt, f_payload frame)"
      using res unfolding q by (rule resolve_target_addr)
    show thesis
      using assms res log1 snd log2 d
      by (intro that [of "if succeeded q' then [(tgt, f_payload frame)] else []"])
        (auto simp: udp_handle_event_def q accounts_def split: poll.splits sum.splits)
  next
    case False
    with assms res log1 show thesis
      by (intro that [of "[]"])
        (auto simp: udp_handle_event_def accounts_def split: poll.splits sum.splits)
  qed
qed

lemma round_remote:
  assumes "udp_handle_event ops (InTime (Remote (Inr d))) st = (f, st')"
  obtains ds part where "accounts sent log st st' [] ds part"
    "vw (us_client st') = vw (us_client st)" "ds = [] \<or> ds = [d]"
    "f = Ready Continue \<Longrightarrow> ds = [d] \<and> part = []" "f \<noteq> Ready Break"
    "\<exists>rest. part @ rest = datagram_bytes d"
proof -
  obtain data src where d: "d = (data, src)" by fastforce
  obtain q c where wr: "udp_write_all ops (datagram_bytes d) (us_client st) = (q, c)" by fastforce
  from write_all_sent [OF wr] obtain k where k: "vw c = vw (us_client st)"
    "sent c = sent (us_client st) @ take k (datagram_bytes d)"
    "succeeded q \<Longrightarrow> k = length (datagram_bytes d)" by blast
  show thesis
  proof (cases "succeeded q")
    case True
    then obtain x where "q = Ready (Inr x)" by (cases q rule: succeeded.cases) auto
    with assms wr k show thesis
      by (intro that [of "[d]" "[]"])
        (auto simp: udp_handle_event_def d build_received accounts_def received_size_def min.commute)
  next
    case False
    with assms wr k show thesis
      by (intro that [of "[]" "take k (datagram_bytes d)"])
        (auto simp: udp_handle_event_def d build_received accounts_def append_take_drop_id
          split: poll.splits sum.splits intro: exI [of _ "drop k (datagram_bytes (data, src))"])
  qed
qed

lemma turn_accounts:
  assumes "udp_select ops elapsed turn st = (Some ev, st1)" and "settled_state st"
    and "udp_handle_event ops ev st1 = (f, st')"
  shows "\<exists>ls ds part. accounts sent log st st' ls ds part \<and> subseq ds (datagram_of turn) \<and>
    (f = Ready Continue \<or> f = Ready Break \<longrightarrow> part = [])"
proof -
  have same: "accounts sent log st st2 ls ds part \<longleftrightarrow> accounts sent log st1 st2 ls ds part" for st2 ls ds part
    using select_settled [OF assms(1,2)] by (simp add: accounts_def)
  have idle: ?thesis if "st' = st1"
    using that by (intro exI [of _ "[]"]) (simp add: same accounts_refl)
  consider "ev = Elapsed" | fr where "ev = InTime (Client (Inr (Some fr)))"
    | "ev = InTime (Client (Inr None))" | e where "ev = InTime (Client (Inl e))"
    | d where "ev = InTime (Remote (Inr d))" | e where "ev = InTime (Remote (Inl e))"
    by (metis timed.exhaust udp_event.exhaust sum.exhaust option.exhaust)
  then show ?thesis
  proof cases
    case 2
    from round_client [OF assms(3) [unfolded 2]] obtain ls where
      "accounts sent log st1 st' ls [] []" by metis
    then show ?thesis by (intro exI [of _ ls] exI [of _ "[]"]) (simp add: same)
  next
    case 5
    from select_remote [OF assms(1) [unfolded 5]] have turn: "datagram_of turn = [d]" by auto
    from round_remote [OF assms(3) [unfolded 5]] obtain ds part where
      "accounts sent log st1 st' [] ds part" "ds = [] \<or> ds = [d]"
      "f = Ready Continue \<Longrightarrow> ds = [d] \<and> part = []" "f \<noteq> Ready Break" by metis
    then show ?thesis
      using turn by (intro exI [of _ "[]"] exI [of _ ds] exI [of _ part]) (auto simp: same)
  next
    case 1
    with assms(3) have "st' = st1" by (simp add: udp_handle_event_def)
    then show ?thesis by (rule idle)
  next
    case 3
    with assms(3) have "st' = st1" by (simp add: udp_handle_event_def)
    then show ?thesis by (rule idle)
  next
    case 4
    with assms(3) have "st' = st1" by (simp add: udp_handle_event_def)
    then show ?thesis by (rule idle)
  next
    case 6
    with assms(3) have "st' = st1" by (simp add: udp_handle_event_def)
    then show ?thesis by (rule idle)
  qed
qed

text \<open>Dealing with an event leaves no future behind.\<close>

lemma handle_event_reading:
  "udp_handle_event ops ev st = (f, st') \<Longrightarrow> us_reading st' = us_reading st"
  by (auto simp: udp_handle_event_def Let_def
      split: timed.splits udp_event.splits sum.splits option.splits prod.splits poll.splits)

lemma loop_accounts:
  assumes "udp_loop ops arrive d started turns st = (w, r, st')" and "settled_state st"
  shows "settled_state st' \<and> (\<exists>ls ds part. accounts sent log st st' ls ds part \<and>
    subseq ds (offered (turns_of turns)) \<and> (r = Ready (Inr ()) \<longrightarrow> part = []))"
  using assms
proof (induction turns arbitrary: started st)
  case Nil
  then show ?case using accounts_refl [of sent log st] by (auto intro!: exI [of _ "[]"])
next
  case (Cons x turns)
  obtain t u turn where x: "x = (t, u, turn)" by (cases x)
  show ?case
  proof (cases "polls turn")
    case False
    then obtain bs fin where turn: "turn = Arrive bs fin" by (cases turn) simp_all
    let ?st = "udp_arrive arrive bs fin st"
    have "udp_loop ops arrive d started turns ?st = (w, r, st')"
      using Cons.prems turn x by simp
    moreover have "accounts sent log ?st st' ls ds part \<longleftrightarrow> accounts sent log st st' ls ds part" for ls ds part
      using arrive_settled [OF Cons.prems(2), of bs fin] by (simp add: accounts_def udp_arrive_def)
    ultimately show ?thesis
      using Cons.IH [of started ?st] arrive_settled [OF Cons.prems(2), of bs fin] by (simp add: x turn)
  next
    case True
    note loop = Cons.prems(1) [unfolded x udp_loop_polls [OF True]]
    obtain e st1 where sel: "udp_select ops (started + d \<le> t) turn st = (e, st1)" by fastforce
    note set = select_settled [OF sel Cons.prems(2)]
    show ?thesis
    proof (cases e)
      case None
      have "accounts sent log st1 st' ls ds part \<longleftrightarrow> accounts sent log st st' ls ds part" for ls ds part
        using set by (simp add: accounts_def)
      with loop sel None set Cons.IH [of started st1] show ?thesis
        by (auto simp: x intro: list_emb_append2)
    next
      case (Some ev)
      obtain f st2 where ev: "udp_handle_event ops ev st1 = (f, st2)"
        by fastforce
      from turn_accounts [OF sel [unfolded Some] Cons.prems(2) ev] obtain ls ds part where
        acc: "accounts sent log st st2 ls ds part" "subseq ds (datagram_of turn)"
        "f = Ready Continue \<or> f = Ready Break \<longrightarrow> part = []" by blast
      have "settled_state st2"
        using handle_event_reading [OF ev] set Some by (auto intro: fresh_settled)
      note IH = Cons.IH [OF _ this]
      show ?thesis
      proof (cases "f = Ready Continue")
        case True
        with loop sel Some ev have "udp_loop ops arrive d u turns st2 = (w, r, st')" by simp
        from IH [OF this] obtain ls' ds' part' where "settled_state st'"
          "accounts sent log st2 st' ls' ds' part'" "subseq ds' (offered (turns_of turns))"
          "r = Ready (Inr ()) \<longrightarrow> part' = []" by blast
        with acc True accounts_trans [of sent log st st2 ls ds st' ls' ds' part'] show ?thesis
          by (intro conjI exI [of _ "ls @ ls'"] exI [of _ "ds @ ds'"] exI [of _ part'])
            (simp_all add: x list_emb_append_mono)
      next
        case False
        with loop sel Some ev have "st' = st2" "r = Ready (Inr ()) \<Longrightarrow> f = Ready Break"
          by (auto split: poll.splits udp_flow.splits)
        with acc \<open>settled_state st2\<close> show ?thesis
          by (intro conjI exI [of _ ls] exI [of _ ds] exI [of _ part])
            (auto intro: subseq_rev_drop_many list_emb_append2 simp: x list_emb_prefix)
      qed
    qed
  qed
qed

text \<open>
  The unread bytes of the client, \<open>bs\<close>, those included that a waiting future holds: these are an
  initial part that does not complete a frame.
\<close>

definition unread :: "('c, 'u) udp_state \<Rightarrow> bytes \<Rightarrow> stream_end \<Rightarrow> bool" where
  "unread st bs fin \<longleftrightarrow> vw (resumed st) = (bs, fin) \<and>
     (us_reading st = None \<or> (\<exists>g rest. bs = g @ rest \<and> vw (us_client st) = (rest, fin) \<and>
        piece_ok eof (None, g)))"

lemma unread_fresh: "us_reading st = None \<Longrightarrow> vw (us_client st) = (bs, fin) \<Longrightarrow> unread st bs fin"
  by (simp add: unread_def)

lemma unread_arrive:
  assumes "unread st bs fin"
  shows "unread (udp_arrive arrive xs e st) (if fin = Open then bs @ xs else bs)
    (if fin = Open then e else fin)"
proof -
  have view: "vw (arrive xs e c) = (if snd (vw c) = Open then (fst (vw c) @ xs, e) else vw c)" for c
    using laws by (simp add: udp_laws_def)
  show ?thesis
  proof (cases "us_reading st")
    case None
    with assms show ?thesis by (simp add: unread_def udp_arrive_def resumed_def view)
  next
    case (Some c)
    with assms obtain g rest where "vw c = (bs, fin)" "bs = g @ rest" "vw (us_client st) = (rest, fin)"
      "piece_ok eof (None, g)" by (auto simp: unread_def resumed_def)
    with Some show ?thesis
      by (cases "fin = Open") (auto simp: unread_def udp_arrive_def resumed_def view)
  qed
qed

text \<open>A poll that waits has taken everything, from a stream that is open.\<close>

lemma poll_waits:
  assumes "read_udp_frame (udp_reader ops) c = (Pending, c')" and "vw c = (bs, fin)"
  shows "fin = Open \<and> vw c' = ([], Open) \<and> piece_ok eof (None, bs)"
proof -
  from assms have "fst (read_udp_frame (view_reader eof 0) (bs, fin)) = Pending"
    by (metis frame_poll fst_conv)
  moreover from this have "fin = Open" by (rule frame_waits_open)
  ultimately show ?thesis using frame_drains [OF assms(1)] by simp
qed

text \<open>What a poll does to the unread bytes.\<close>

lemma select_unread:
  assumes sel: "udp_select ops elapsed turn st = (e, st1)" and "unread st bs fin"
  obtains (wait) "e = None" "unread st1 bs fin"
    | (frame) f w rest where "e = Some (InTime (Client (Inr (Some f))))" "wire_frame f w"
      "bs = w @ rest" "vw (us_client st1) = (rest, fin)"
    | (datagram) d g rest where "e = Some (InTime (Remote (Inr d)))" "datagram_of turn = [d]"
      "bs = g @ rest" "piece_ok eof (None, g)" "vw (us_client st1) = (rest, fin)"
    | (stop) ev where "e = Some ev" "\<And>f st'. udp_handle_event ops ev st1 = (f, st') \<Longrightarrow>
        f \<noteq> Ready Continue \<and> us_net st' = us_net st1"
proof -
  have stream: "byte_stream (udp_reader ops) vw eof"
    using reader_laws by (rule byte_stream.intro)
  from assms(2) have view: "vw (resumed st) = (bs, fin)" by (simp add: unread_def)
  have empty_piece: "piece_ok eof (None, [])" by (simp add: read_udp_frame_def view_int_def view_exact_def
      await_def short_read_def)
  obtain q c where poll: "read_udp_frame (udp_reader ops) (resumed st) = (q, c)" by fastforce
  note waits = poll_waits [OF _ view, of c]
  consider (client) p where "q = Ready p" "e = Some (InTime (Client p))" "us_client st1 = c"
    | (waiting) "q = Pending" "e = None" "resumed st1 = resumed st" "us_client st1 = c" "us_reading st1 \<noteq> None"
    | (elapsed) "e = Some Elapsed"
    | (polled) p b where "q = Pending" "turn = Datagram b p" "e = Some (InTime (Remote p))" "us_client st1 = c"
    | (remote) p b where "turn = Datagram b p" "e = Some (InTime (Remote p))" "us_client st1 = us_client st"
    | (other) "e = None" "st1 = st"
    using sel poll
    by (cases turn) (auto simp: udp_select_def split: prod.splits poll.splits if_splits)
  then show thesis
  proof cases
    case client
    show thesis
    proof (cases "\<exists>f. p = Inr (Some f)")
      case True
      then obtain f where p: "p = Inr (Some f)" by blast
      with client poll have "read_udp_frame (udp_reader ops) (resumed st) = (Ready (Inr (Some f)), c)" by simp
      then obtain w rest where "wire_frame f w" "bs = w @ rest" "vw c = (rest, fin)"
        by (rule byte_stream.read_udp_frame_SomeD [OF stream _ view])
      with client p show thesis by (intro frame) simp_all
    next
      case False
      then have "p = Inr None \<or> (\<exists>e. p = Inl e)" by (metis option.exhaust sum.exhaust)
      with client show thesis by (intro stop) (auto simp: udp_handle_event_def)
    qed
  next
    case waiting
    with poll waits have "fin = Open" "vw c = ([], Open)" "piece_ok eof (None, bs)" by simp_all
    with waiting view show thesis
      by (intro wait) (auto simp: unread_def intro!: exI [of _ bs])
  next
    case elapsed
    then show thesis by (intro stop) (auto simp: udp_handle_event_def)
  next
    case polled
    with poll waits have "fin = Open" "vw c = ([], Open)" "piece_ok eof (None, bs)" by simp_all
    with polled show thesis
    proof (cases p)
      case (Inl err)
      with polled show thesis by (intro stop) (auto simp: udp_handle_event_def)
    next
      case (Inr d)
      with polled \<open>fin = Open\<close> \<open>vw c = ([], Open)\<close> \<open>piece_ok eof (None, bs)\<close> show thesis
        by (intro datagram [of d bs "[]"]) simp_all
    qed
  next
    case remote
    show thesis
    proof (cases p)
      case (Inl err)
      with remote show thesis by (intro stop) (auto simp: udp_handle_event_def)
    next
      case (Inr d)
      show thesis
      proof (cases "us_reading st")
        case None
        show thesis
        proof (rule datagram [of d "[]" bs])
          show "piece_ok eof (None, [])" by (rule empty_piece)
        qed (use remote Inr view None in simp_all)
      next
        case (Some c0)
        with assms(2) obtain g rest where "bs = g @ rest" "vw (us_client st) = (rest, fin)"
          "piece_ok eof (None, g)" by (auto simp: unread_def)
        with remote Inr show thesis by (intro datagram [of d g rest]) simp_all
      qed
    qed
  next
    case other
    with assms(2) show thesis by (intro wait) simp_all
  qed
qed

text \<open>So the frames of the client are taken off its stream one by one, but for what is dropped.\<close>

lemma loop_in_order:
  assumes "udp_loop ops arrive d started turns st = (w, r, st')" and "unread st bs fin"
  shows "\<exists>ls. log (us_net st') = log (us_net st) @ ls \<and>
    in_order eof (bs @ arrived fin (turns_of turns)) (length (offered (turns_of turns))) ls"
  using assms
proof (induction turns arbitrary: started st bs fin)
  case Nil
  then show ?case by (simp add: in_order_Nil)
next
  case (Cons x turns)
  obtain t u turn where x: "x = (t, u, turn)" by (cases x)
  show ?case
  proof (cases "polls turn")
    case False
    then obtain xs e where turn: "turn = Arrive xs e" by (cases turn) simp_all
    let ?st = "udp_arrive arrive xs e st"
    have loop: "udp_loop ops arrive d started turns ?st = (w, r, st')" "us_net ?st = us_net st"
      using Cons.prems turn x by (simp_all add: udp_arrive_def)
    have rest: "(if fin = Open then bs @ xs else bs) @ arrived (if fin = Open then e else fin) (turns_of turns) =
        bs @ arrived fin (turns_of (x # turns))"
      by (cases fin) (simp_all add: turn x)
    from Cons.IH [OF loop(1) unread_arrive [OF Cons.prems(2)]] show ?thesis
      unfolding rest loop(2) by (simp add: x turn)
  next
    case True
    note loop = Cons.prems(1) [unfolded x udp_loop_polls [OF True]]
    let ?n = "length (offered (turns_of turns))"
    have rest: "arrived fin (turns_of (x # turns)) = arrived fin (turns_of turns)"
      using arrived_polls [OF True] by (simp add: x)
    have count: "?n \<le> length (offered (turns_of (x # turns)))" by (simp add: x)
    obtain e st1 where sel: "udp_select ops (started + d \<le> t) turn st = (e, st1)" by fastforce
    have net: "us_net st1 = us_net st"
      using sel by (auto simp: udp_select_def split: udp_turn.splits prod.splits poll.splits if_splits)
    from sel Cons.prems(2) show ?thesis
    proof (cases rule: select_unread)
      case wait
      with loop sel have "udp_loop ops arrive d started turns st1 = (w, r, st')" by simp
      from Cons.IH [OF this wait(2)] net obtain ls where ls: "log (us_net st') = log (us_net st) @ ls"
        "in_order eof (bs @ arrived fin (turns_of turns)) ?n ls" by auto
      from in_order_mono [OF ls(2) count] ls(1) show ?thesis unfolding rest by blast
    next
      case (frame fr fw tail)
      obtain f st2 where ev: "udp_handle_event ops (InTime (Client (Inr (Some fr)))) st1 = (f, st2)" by fastforce
      obtain ls where acc: "accounts sent log st1 st2 ls [] []" "us_client st2 = us_client st1"
        and ls: "ls = [] \<or> (\<exists>d. ls = [d] \<and> sent_for fr d)" by (rule round_client [OF ev])
      from select_settled_reading [OF sel [unfolded frame(1)]] have fresh: "us_reading st2 = None"
        using handle_event_reading [OF ev] by simp
      have step: "f = Ready Continue \<and> udp_loop ops arrive d u turns st2 = (w, r, st') \<or> st' = st2"
        using loop sel ev frame(1) by (auto split: poll.splits udp_flow.splits)
      have "\<exists>ls'. log (us_net st') = log (us_net st2) @ ls' \<and>
          in_order eof (tail @ arrived fin (turns_of turns)) ?n ls'"
        using step Cons.IH [of u st2 tail fin] unread_fresh [OF fresh] frame(4) acc(2) in_order_Nil by auto
      then obtain ls' where "log (us_net st') = log (us_net st2) @ ls'"
        "in_order eof (tail @ arrived fin (turns_of turns)) ?n ls'" by blast
      with in_order_mono [OF in_order_frame [OF frame(2) ls] count] acc net show ?thesis
        unfolding rest frame(3) append_assoc
        by (intro exI [of _ "ls @ ls'"]) (simp add: accounts_def)
    next
      case (datagram dg g tail)
      obtain f st2 where ev: "udp_handle_event ops (InTime (Remote (Inr dg))) st1 = (f, st2)" by fastforce
      obtain ds part where acc: "accounts sent log st1 st2 [] ds part" "vw (us_client st2) = vw (us_client st1)"
        by (rule round_remote [OF ev])
      from select_settled_reading [OF sel [unfolded datagram(1)]] have fresh: "us_reading st2 = None"
        using handle_event_reading [OF ev] by simp
      have step: "f = Ready Continue \<and> udp_loop ops arrive d u turns st2 = (w, r, st') \<or> st' = st2"
        using loop sel ev datagram(1) by (auto split: poll.splits udp_flow.splits)
      have "\<exists>ls'. log (us_net st') = log (us_net st2) @ ls' \<and>
          in_order eof (tail @ arrived fin (turns_of turns)) ?n ls'"
        using step Cons.IH [of u st2 tail fin] unread_fresh [OF fresh] datagram(5) acc(2) in_order_Nil by auto
      then obtain ls' where "log (us_net st') = log (us_net st2) @ ls'"
        "in_order eof (tail @ arrived fin (turns_of turns)) ?n ls'" by blast
      moreover have "length (offered (turns_of (x # turns))) = Suc ?n"
        using datagram(2) by (simp add: x)
      ultimately show ?thesis
        using in_order_loss [OF datagram(4)] acc net
        unfolding rest datagram(3) append_assoc
        by (intro exI [of _ ls']) (simp add: accounts_def)
    next
      case (stop ev)
      obtain f st2 where h: "udp_handle_event ops ev st1 = (f, st2)" by fastforce
      from stop(2) [OF h] loop sel stop(1) h have "us_net st' = us_net st"
        using net by (auto split: poll.splits udp_flow.splits)
      then show ?thesis using in_order_Nil by simp
    qed
  qed
qed

text \<open>The whole association.\<close>

lemma handle_udp_accounts:
  assumes run: "handle_udp ops arrive c s d addr started turns = (r, c', u', s')"
  shows "case u' of
      None \<Rightarrow> c' = c \<and> s' = s
    | Some u \<Rightarrow> \<exists>ds part. subseq ds (offered (turns_of turns)) \<and>
        sent c' = sent c @ concat (map datagram_bytes ds) @ part \<and>
        (r = Ready (Inr ()) \<longrightarrow> part = []) \<and>
        bytes_received s' = bytes_received s + of_nat (sum_list (map received_size ds)) \<and>
        bytes_sent s' = bytes_sent s + of_nat (sum_list (map (length \<circ> snd) (log u)))"
proof (cases "udp_bind ops addr")
  case (Ready b)
  show ?thesis
  proof (cases b)
    case (Inr u)
    with laws Ready have empty: "log u = []" by (simp add: udp_laws_def)
    let ?st = "\<lparr>us_client = c, us_reading = None, us_net = u, us_session = s\<rparr>"
    obtain w q st' where loop: "udp_loop ops arrive d started turns ?st = (w, q, st')"
      by (metis prod_cases3)
    have "settled_state ?st" by (rule fresh_settled) simp
    from loop_accounts [OF loop this] obtain ls ds part where
      acc: "accounts sent log ?st st' ls ds part" "subseq ds (offered (turns_of turns))"
      "q = Ready (Inr ()) \<longrightarrow> part = []" by blast
    show ?thesis
    proof (cases "udp_local_addr ops u")
      case (Inl e)
      with run Ready Inr empty show ?thesis
        by (auto simp: handle_udp_def intro!: exI [of _ "[]"])
    next
      case (Inr a)
      with run Ready \<open>b = Inr u\<close> loop acc empty show ?thesis
        by (auto simp: handle_udp_def accounts_def intro!: exI [of _ ds] exI [of _ part])
    qed
  qed (use run Ready in \<open>auto simp: handle_udp_def\<close>)
qed (use run in \<open>auto simp: handle_udp_def\<close>)

lemma handle_udp_in_order:
  assumes run: "handle_udp ops arrive c s d addr started turns = (r, c', Some u, s')"
  shows "in_order eof (fst (vw c) @ arrived (snd (vw c)) (turns_of turns))
    (length (offered (turns_of turns))) (log u)"
proof -
  from run obtain u0 where bind: "udp_bind ops addr = Ready (Inr u0)"
    by (auto simp: handle_udp_def split: poll.splits sum.splits)
  with laws have empty: "log u0 = []" by (simp add: udp_laws_def)
  let ?st = "\<lparr>us_client = c, us_reading = None, us_net = u0, us_session = s\<rparr>"
  obtain w q st' where loop: "udp_loop ops arrive d started turns ?st = (w, q, st')"
    by (metis prod_cases3)
  have "unread ?st (fst (vw c)) (snd (vw c))" by (rule unread_fresh) simp_all
  from loop_in_order [OF loop this] empty
  have "in_order eof (fst (vw c) @ arrived (snd (vw c)) (turns_of turns))
    (length (offered (turns_of turns))) (log (us_net st'))" by simp
  moreover have "u = u0 \<or> u = us_net st'"
    using run bind loop by (auto simp: handle_udp_def split: sum.splits)
  ultimately show ?thesis
    using empty in_order_Nil by auto
qed

text \<open>
  A frame that comes in two pieces, the first of which is polled before the second one comes: with
  nothing in between it is read; with a datagram in between the first piece is dropped, whichever branch is
  polled first then, and the round that follows reads on from the second.
\<close>

lemma split_frame_waits:
  assumes "wire_frame f (head @ tail)" and "tail \<noteq> []"
    and "vw (us_client st) = ([], Open)" and "us_reading st = None"
  obtains c0 c1 where
    "udp_select ops False Wake (udp_arrive arrive head Open st) =
      (None, st\<lparr>us_client := c1, us_reading := Some c0\<rparr>)"
    "vw c0 = (head, Open)" "vw c1 = ([], Open)"
    "\<exists>c2. read_udp_frame (udp_reader ops) c0 = (Pending, c2)"
proof -
  let ?c0 = "arrive head Open (us_client st)"
  have c0: "vw ?c0 = (head, Open)" using laws assms(3) by (simp add: udp_laws_def)
  obtain q c1 where poll: "read_udp_frame (udp_reader ops) ?c0 = (q, c1)" by fastforce
  from frame_head_waits [OF assms(1,2)] frame_poll [OF c0] poll have "q = Pending" by simp
  with poll have "vw c1 = ([], Open)" by (auto dest: frame_drains)
  with poll \<open>q = Pending\<close> c0 assms(4) show thesis
    by (intro that [of ?c0 c1]) (simp_all add: udp_select_def udp_arrive_def)
qed

lemma split_frame_read:
  assumes "wire_frame f (head @ tail)" and "vw c0 = (head, Open)" and "us_reading st = Some c0"
  shows "\<exists>st1. udp_select ops elapsed Wake (udp_arrive arrive tail Open st) =
      (Some (InTime (Client (Inr (Some f)))), st1) \<and> vw (us_client st1) = ([], Open)"
proof -
  have view: "vw (arrive tail Open c0) = (head @ tail, Open)" using laws assms(2) by (simp add: udp_laws_def)
  have "byte_stream (udp_reader ops) vw eof" using reader_laws by (rule byte_stream.intro)
  from byte_stream.read_udp_frame_Some_iff [OF this view, of f "[]"] assms(1)
  obtain c1 where "read_udp_frame (udp_reader ops) (arrive tail Open c0) = (Ready (Inr (Some f)), c1)"
    "vw c1 = ([], Open)" by auto
  with assms(3) show ?thesis by (simp add: udp_select_def udp_arrive_def resumed_def)
qed

lemma split_frame_lost:
  assumes "wire_frame f (head @ tail)" and "tail \<noteq> []"
    and "vw (us_client st) = ([], Open)" and "us_reading st = None"
    and "\<And>c. succeeded (fst (udp_write_all ops (datagram_bytes (data, src)) c))"
    and "t2 < started + d"
  shows "\<exists>st1. udp_loop ops arrive d started [(t1, u1, Arrive head Open), (t2, u2, Wake),
      (t3, u3, Datagram first (Inr (data, src))), (t4, u4, Arrive tail Open)] st = (Some u3, Pending, st1) \<and>
    us_reading st1 = None \<and> vw (us_client st1) = (tail, Open) \<and> us_net st1 = us_net st"
proof -
  obtain c0 c1 where wait: "udp_select ops False Wake (udp_arrive arrive head Open st) =
      (None, st\<lparr>us_client := c1, us_reading := Some c0\<rparr>)" and c: "vw c0 = (head, Open)" "vw c1 = ([], Open)"
    "\<exists>c2. read_udp_frame (udp_reader ops) c0 = (Pending, c2)"
    by (rule split_frame_waits [OF assms(1-4)])
  from c(3) obtain c2 where c2: "read_udp_frame (udp_reader ops) c0 = (Pending, c2)" "vw c2 = ([], Open)"
    using frame_drains by blast
  let ?c = "if first then c2 else c1"
  have select: "udp_select ops elapsed (Datagram first (Inr (data, src)))
      (st\<lparr>us_client := c1, us_reading := Some c0\<rparr>) =
    (Some (InTime (Remote (Inr (data, src)))), st\<lparr>us_client := ?c, us_reading := None\<rparr>)" for elapsed
    using c2 by (simp add: udp_select_def)
  obtain q c3 where wr: "udp_write_all ops (datagram_bytes (data, src)) ?c = (q, c3)" by fastforce
  from write_all_sent [OF wr] c(2) c2(2) have c3: "vw c3 = ([], Open)" by (simp split: if_splits)
  from assms(5) [of ?c] wr obtain x where q: "q = Ready (Inr x)"
    by (cases q rule: succeeded.cases) auto
  have handle: "udp_handle_event ops (InTime (Remote (Inr (data, src))))
      (st\<lparr>us_client := ?c, us_reading := None\<rparr>) =
    (Ready Continue, st\<lparr>us_client := c3, us_reading := None, us_session :=
       add_received (of_nat (length (take UDP_BUFFER_SIZE data))) (us_session st)\<rparr>)"
    using wr q by (simp add: udp_handle_event_def build_received)
  have "vw (arrive tail Open c3) = (tail, Open)" using laws c3 by (simp add: udp_laws_def)
  with wait select handle assms(6) show ?thesis by (simp add: udp_arrive_def)
qed

end

section \<open>In-memory associations\<close>

text \<open>
  A client stream whose unread bytes can be got at and replaced, over an in-memory network: it
  records what is sent and resolves the names it knows.
\<close>

definition lifted ::
  "('s \<Rightarrow> view) \<Rightarrow> (view \<Rightarrow> 's \<Rightarrow> 's) \<Rightarrow> (view, 'e, 'a) io \<Rightarrow> ('s, 'e, 'a) io" where
  "lifted vw put m = (\<lambda>s. case m (vw s) of (r, v) \<Rightarrow> (r, put v s))"

definition lifted_reader :: "('s \<Rightarrow> view) \<Rightarrow> (view \<Rightarrow> 's \<Rightarrow> 's) \<Rightarrow> 's async_reader" where
  "lifted_reader vw put = \<lparr>rd_read = \<lambda>n. lifted vw put (view_read 65535 n),
     rd_exact = \<lambda>n. lifted vw put (view_exact early_eof n),
     rd_u8 = lifted vw put (view_int early_eof 1), rd_u16 = lifted vw put (view_int early_eof 2),
     rd_u64 = lifted vw put (view_int early_eof 8)\<rparr>"

record udp_net =
  n_log :: "(socket_addr \<times> bytes) list"

definition mem_udp_ops ::
  "('s \<Rightarrow> view) \<Rightarrow> (view \<Rightarrow> 's \<Rightarrow> 's) \<Rightarrow> (bytes \<Rightarrow> ('s, io_error, unit) io) \<Rightarrow>
   (rstring \<Rightarrow> u16 \<Rightarrow> socket_addr list) \<Rightarrow> ('s, udp_net) udp_ops" where
  "mem_udp_ops vw put write hosts = \<lparr>udp_reader = lifted_reader vw put, udp_write_all = write,
     udp_bind = \<lambda>_. Ready (Inr \<lparr>n_log = []\<rparr>), udp_local_addr = \<lambda>_. Inr (V4 (Ipv4Addr 0 0 0 0) 4000),
     lookup_host = \<lambda>d p. ret (hosts d p),
     send_to = \<lambda>payload tgt u. (Ready (Inr (length payload)), u\<lparr>n_log := n_log u @ [(tgt, payload)]\<rparr>)\<rparr>"

definition mem_arrive ::
  "('s \<Rightarrow> view) \<Rightarrow> (view \<Rightarrow> 's \<Rightarrow> 's) \<Rightarrow> bytes \<Rightarrow> stream_end \<Rightarrow> 's \<Rightarrow> 's" where
  "mem_arrive vw put bs fin s =
     (if snd (vw s) = Open then put (fst (vw s) @ bs, fin) s else s)"

lemma simulates_lifted: "(\<And>v s. vw (put v s) = v) \<Longrightarrow> simulates vw (lifted vw put m) m"
  by (simp add: simulates_def lifted_def split: prod.splits)

lemma read_law_lifted:
  assumes "\<And>v s. vw (put v s) = v" and "read_law id (\<lambda>n. m n)"
  shows "read_law vw (\<lambda>n. lifted vw put (m n))"
  unfolding read_law_def
proof (intro allI impI)
  fix n :: nat and s :: 'a and bs fin
  assume "0 < n" and "vw s = (bs, fin)"
  with assms(2) [unfolded read_law_def, rule_format, of n "(bs, fin)" bs fin] assms(1)
  show "(bs \<noteq> [] \<longrightarrow> (\<exists>k s'. 0 < k \<and> k \<le> n \<and> k \<le> length bs \<and>
      lifted vw put (m n) s = (Ready (Inr (take k bs)), s') \<and> vw s' = (drop k bs, fin))) \<and>
    (bs = [] \<longrightarrow> (\<exists>s'. vw s' = ([], fin) \<and> lifted vw put (m n) s =
      (case fin of Closed \<Rightarrow> Ready (Inr []) | Broken e \<Rightarrow> Ready (Inl e) | Open \<Rightarrow> Pending, s')))"
    by (auto simp: lifted_def)
qed

lemma byte_stream_laws_lifted:
  "(\<And>v s. vw (put v s) = v) \<Longrightarrow> byte_stream_laws (lifted_reader vw put) vw early_eof"
  by (simp add: byte_stream_laws_def lifted_reader_def simulates_lifted read_law_lifted
      read_law_view_read early_eof_def)

lemma keeps_lifted: "(\<And>v s. g (put v s) = g s) \<Longrightarrow> keeps g (lifted vw put m)"
  by (simp add: keeps_def lifted_def split: prod.splits)

lemma drains_lifted:
  assumes "\<And>v s. vw (put v s) = v" and "orderly m"
  shows "drains vw (lifted vw put m)"
  unfolding drains_def
proof (intro allI impI)
  fix s
  obtain bs fin where "vw s = (bs, fin)" by (cases "vw s")
  moreover obtain q v where "m (bs, fin) = (q, v)" by (cases "m (bs, fin)")
  ultimately have m: "vw s = (bs, fin)" "m (bs, fin) = (q, v)" by simp_all
  assume "fst (lifted vw put m s) = Pending"
  with m have "m (bs, fin) = (Pending, v)" by (simp add: lifted_def)
  from orderly_Pending [OF assms(2) this] m assms(1) show "vw (snd (lifted vw put m s)) = ([], Open)"
    by (simp add: lifted_def)
qed

lemma lifted_reader_sel:
  "rd_exact (lifted_reader vw put) n = lifted vw put (view_exact early_eof n)"
  "rd_u8 (lifted_reader vw put) = lifted vw put (view_int early_eof 1)"
  "rd_u16 (lifted_reader vw put) = lifted vw put (view_int early_eof 2)"
  by (simp_all add: lifted_reader_def)

lemma udp_laws_mem:
  assumes "\<And>v s. vw (put v s) = v" and "\<And>v s. sent (put v s) = sent s"
    and "write_law vw sent write"
  shows "udp_laws (mem_udp_ops vw put write hosts) (mem_arrive vw put) vw sent n_log early_eof"
  using assms
  by (auto simp: udp_laws_def mem_udp_ops_def mem_arrive_def byte_stream_laws_lifted keeps_lifted
      lifted_reader_sel send_law_def keeps_ret drains_lifted orderly_exact orderly_int)

definition duplex_put :: "view \<Rightarrow> duplex \<Rightarrow> duplex" where
  "duplex_put v d = d\<lparr>d_in := v\<rparr>"

definition prefixed_put :: "view \<Rightarrow> duplex prefixed \<Rightarrow> duplex prefixed" where
  "prefixed_put v p = prefixed_new [] ((inner p)\<lparr>d_in := v\<rparr>)"

definition prefixed_write_all :: "bytes \<Rightarrow> (duplex prefixed, io_error, unit) io" where
  "prefixed_write_all bs p = (case duplex_write_all bs (inner p) of (r, d) \<Rightarrow> (r, p\<lparr>inner := d\<rparr>))"

lemma udp_laws_duplex:
  "udp_laws (mem_udp_ops d_in duplex_put duplex_write_all hosts) (mem_arrive d_in duplex_put)
     d_in d_sent n_log early_eof"
  by (rule udp_laws_mem) (simp_all add: duplex_put_def write_law_duplex)

lemma udp_laws_prefixed:
  "udp_laws (mem_udp_ops (prefixed_view d_in) prefixed_put prefixed_write_all hosts)
     (mem_arrive (prefixed_view d_in) prefixed_put)
     (prefixed_view d_in) (d_sent \<circ> inner) n_log early_eof"
proof (rule udp_laws_mem)
  show "write_law (prefixed_view d_in) (d_sent \<circ> inner) prefixed_write_all"
    by (auto simp: write_law_def prefixed_write_all_def duplex_write_all_def prefixed_view_def)
qed (simp_all add: prefixed_put_def prefixed_new_def prefixed_view_def)

interpretation duplex_udp: udp_relay "mem_udp_ops d_in duplex_put duplex_write_all hosts"
    "mem_arrive d_in duplex_put" d_in d_sent n_log early_eof for hosts
  by unfold_locales (rule udp_laws_duplex)

interpretation prefixed_udp:
  udp_relay "mem_udp_ops (prefixed_view d_in) prefixed_put prefixed_write_all hosts"
    "mem_arrive (prefixed_view d_in) prefixed_put"
    "prefixed_view d_in" "d_sent \<circ> inner" n_log early_eof for hosts
  by unfold_locales (rule udp_laws_prefixed)

text \<open>A client that sends one frame in two pieces; a datagram arrives behind it or in between.\<close>

definition frame_head :: bytes where "frame_head = [0x01, 8, 8, 8]"
definition frame_tail :: bytes where "frame_tail = [8, 0, 53, 0, 2, 0x0d, 0x0a, 0x68, 0x69]"

definition demo_udp_ops :: "(duplex, udp_net) udp_ops" where
  "demo_udp_ops = mem_udp_ops d_in duplex_put duplex_write_all (\<lambda>_ _. [])"

definition demo_udp_run ::
  "timed_turn list \<Rightarrow> (trojan_error + unit) poll \<times> duplex \<times> udp_net option \<times> session" where
  "demo_udp_run turns =
     handle_udp demo_udp_ops (mem_arrive d_in duplex_put) \<lparr>d_in = ([], Open), d_sent = []\<rparr>
       (fst (session_new 1 0 (V4 (Ipv4Addr 1 2 3 4) 9) (Domain [97] 1) UdpAssociate))
       (from_secs 60) (ascii ''0.0.0.0:0'') 0 turns"

definition frame_then_datagram :: "timed_turn list" where
  "frame_then_datagram = [(1, 1, Arrive frame_head Open), (2, 2, Wake), (3, 3, Arrive frame_tail Open),
     (4, 5, Wake), (6, 7, Datagram False (Inr ([7], V4 (Ipv4Addr 9 9 9 9) 53)))]"

definition datagram_within_frame :: "timed_turn list" where
  "datagram_within_frame = [(1, 1, Arrive frame_head Open), (2, 2, Wake),
     (3, 4, Datagram False (Inr ([7], V4 (Ipv4Addr 9 9 9 9) 53))), (5, 5, Arrive frame_tail Open), (6, 6, Wake)]"

lemmas udp_eval = demo_udp_run_def demo_udp_ops_def frame_then_datagram_def datagram_within_frame_def
  handle_udp_def mem_udp_ops_def mem_arrive_def udp_select_def udp_arrive_def resumed_def from_secs_def
  udp_handle_event_def read_udp_frame_def read_udp_body_def read_target_address_def
  lifted_reader_def lifted_def view_int_def view_exact_def short_read_def await_def io_try_def
  from_io_def duplex_put_def frame_head_def frame_tail_def build_udp_frame_def
  UDP_MAX_PAYLOAD_LEN_def UDP_BUFFER_SIZE_def UDP_CRLF_def duplex_write_all_def resolve_target_def
  from_be_def ipv4_from_octets_def

lemma demo_udp_laws:
  "udp_laws demo_udp_ops (mem_arrive d_in duplex_put) d_in d_sent n_log early_eof"
  unfolding demo_udp_ops_def by (rule udp_laws_duplex)

lemma frame_then_datagram_run:
  "demo_udp_run frame_then_datagram =
     (Pending, \<lparr>d_in = ([], Open), d_sent = [1, 9, 9, 9, 9, 0, 53, 0, 1, 0x0d, 0x0a, 7]\<rparr>,
      Some \<lparr>n_log = [(V4 (Ipv4Addr 8 8 8 8) 53, [0x68, 0x69])]\<rparr>,
      add_received 1 (add_sent 2
        (fst (session_new 1 0 (V4 (Ipv4Addr 1 2 3 4) 9) (Domain [97] 1) UdpAssociate))))"
  by (simp add: udp_eval to_be_u16 add_sent_def add_received_def)

lemma datagram_within_frame_run:
  "demo_udp_run datagram_within_frame =
     (Ready (Inl (InvalidAddressType 8)),
      \<lparr>d_in = ([0, 53, 0, 2, 0x0d, 0x0a, 0x68, 0x69], Open), d_sent = [1, 9, 9, 9, 9, 0, 53, 0, 1, 0x0d, 0x0a, 7]\<rparr>,
      Some \<lparr>n_log = []\<rparr>,
      add_received 1 (fst (session_new 1 0 (V4 (Ipv4Addr 1 2 3 4) 9) (Domain [97] 1) UdpAssociate)))"
  by (simp add: udp_eval to_be_u16 add_received_def)

lemma split_frame_wire:
  "wire_frame \<lparr>f_address = IPv4 (V4 (Ipv4Addr 8 8 8 8) 53), f_payload = [0x68, 0x69]\<rparr> (frame_head @ frame_tail)"
proof -
  have "wire_address (IPv4 (V4 (Ipv4Addr 8 8 8 8) 53)) (0x01 # [8, 8, 8, 8] @ [0, 53])"
    using wire_ipv4 [of "Ipv4Addr 8 8 8 8" 53] by (simp add: to_be_u16)
  from wire_frameI [OF this, of "[0x68, 0x69]"] show ?thesis
    by (simp add: frame_head_def frame_tail_def to_be_u16)
qed

section \<open>Properties\<close>

text \<open>
  C19. The accounting of an association is exact on every sequence of turns and however it ends:
  the client has been sent the frames of datagrams that were offered, in their order, and of a
  frame whose write failed at most a part; \<open>bytes_received\<close> has grown by the payloads of the whole
  frames, \<open>bytes_sent\<close> by the payloads of the datagrams actually sent, both modulo \<open>2 ^ 64\<close>. If no
  socket can be bound, nothing has happened.
\<close>

theorem udp_accounting:
  assumes laws: "udp_laws ops arrive vw sent log eof"
    and run: "handle_udp ops arrive c s udp_timeout addr started turns = (r, c', u', s')"
  shows "case u' of
      None \<Rightarrow> c' = c \<and> s' = s
    | Some u \<Rightarrow> \<exists>ds part. subseq ds (offered (turns_of turns)) \<and>
        sent c' = sent c @ concat (map datagram_bytes ds) @ part \<and>
        (r = Ready (Inr ()) \<longrightarrow> part = []) \<and>
        bytes_received s' = bytes_received s + of_nat (sum_list (map received_size ds)) \<and>
        bytes_sent s' = bytes_sent s + of_nat (sum_list (map (length \<circ> snd) (log u)))"
  by (rule udp_relay.handle_udp_accounts [OF udp_relay.intro [OF laws] run])

text \<open>
  C20. Frames are forwarded in order, on every sequence of turns: the client's stream is, from its start,
  a sequence of frames and of pieces that are an incomplete frame; the datagrams sent are, in order,
  the payloads of some of the frames (those whose target resolved and could be sent to), each to the
  address of its frame when that is not a name. No more pieces are lost than datagrams were offered, so that
  without datagrams the frames follow each other without a gap. Nothing is sent that is not a frame in the
  client's stream, and no byte is used twice.
\<close>

theorem udp_in_order:
  assumes laws: "udp_laws ops arrive vw sent log eof"
    and run: "handle_udp ops arrive c s udp_timeout addr started turns = (r, c', Some u, s')"
  shows "\<exists>pieces fs'. list_all (piece_ok eof) pieces \<and>
    Sublist.prefix (concat (map snd pieces)) (fst (vw c) @ arrived (snd (vw c)) (turns_of turns)) \<and>
    losses pieces \<le> length (offered (turns_of turns)) \<and>
    subseq fs' (frames_in pieces) \<and> list_all2 sent_for fs' (log u)"
  using udp_relay.handle_udp_in_order [OF udp_relay.intro [OF laws] run] by (simp add: in_order_def)

text \<open>
  C21. \<open>read_udp_frame\<close> is not cancellation safe, and the loop cancels it. Take any frame that arrives
  in two pieces, of which the first one is polled before the second one comes. With
  nothing in between the frame is read. With any datagram in between, whichever branch is polled first
  then, the first piece is dropped with the future: when the second one has come the loop waits at the beginning
  of a round and the stream starts in the middle of the frame; nothing has been sent for it.
\<close>

theorem udp_cancellation_loses_bytes:
  assumes "udp_laws ops arrive vw sent log eof"
    and "wire_frame f (head @ tail)" and "tail \<noteq> []"
    and "vw (us_client st) = ([], Open)" and "us_reading st = None"
    and "\<And>c. succeeded (fst (udp_write_all ops (datagram_bytes (data, src)) c))"
    and "t2 < started + udp_timeout"
  shows "(\<exists>st1 st2. udp_loop ops arrive udp_timeout started
        [(t1, u1, Arrive head Open), (t2, u2, Wake), (t4, u4, Arrive tail Open)] st = (Some started, Pending, st1) \<and>
      udp_select ops elapsed Wake st1 = (Some (InTime (Client (Inr (Some f)))), st2) \<and>
      vw (us_client st2) = ([], Open)) \<and>
    (\<exists>st1. udp_loop ops arrive udp_timeout started
        [(t1, u1, Arrive head Open), (t2, u2, Wake), (t3, u3, Datagram client_first (Inr (data, src))),
         (t4, u4, Arrive tail Open)] st = (Some u3, Pending, st1) \<and>
      us_reading st1 = None \<and> vw (us_client st1) = (tail, Open) \<and> us_net st1 = us_net st)"
proof
  have relay: "udp_relay ops arrive vw sent log eof" using assms(1) by (rule udp_relay.intro)
  show "\<exists>st1. udp_loop ops arrive udp_timeout started
        [(t1, u1, Arrive head Open), (t2, u2, Wake), (t3, u3, Datagram client_first (Inr (data, src))),
         (t4, u4, Arrive tail Open)] st = (Some u3, Pending, st1) \<and>
      us_reading st1 = None \<and> vw (us_client st1) = (tail, Open) \<and> us_net st1 = us_net st"
    by (rule udp_relay.split_frame_lost [OF relay assms(2-7)])
  obtain c0 c1 where wait: "udp_select ops False Wake (udp_arrive arrive head Open st) =
      (None, st\<lparr>us_client := c1, us_reading := Some c0\<rparr>)" and c0: "vw c0 = (head, Open)"
    by (rule udp_relay.split_frame_waits [OF relay assms(2-5)])
  have "us_reading (st\<lparr>us_client := c1, us_reading := Some c0\<rparr>) = Some c0" by simp
  from udp_relay.split_frame_read [OF relay assms(2) c0 this, of elapsed] wait assms(7)
  show "\<exists>st1 st2. udp_loop ops arrive udp_timeout started
        [(t1, u1, Arrive head Open), (t2, u2, Wake), (t4, u4, Arrive tail Open)] st = (Some started, Pending, st1) \<and>
      udp_select ops elapsed Wake st1 = (Some (InTime (Client (Inr (Some f)))), st2) \<and>
      vw (us_client st2) = ([], Open)"
    by simp
qed

text \<open>
  On the run in which a datagram comes in between, the rest of the frame is not even the start of
  one, and the association ends with an error.
\<close>

theorem udp_cancellation_loses_bytes_witness:
  "(\<exists>st1. udp_loop demo_udp_ops (mem_arrive d_in duplex_put) (from_secs 60) 0
      [(1, 1, Arrive frame_head Open), (2, 2, Wake),
       (3, 4, Datagram False (Inr ([7], V4 (Ipv4Addr 9 9 9 9) 53))), (5, 5, Arrive frame_tail Open)]
      \<lparr>us_client = \<lparr>d_in = ([], Open), d_sent = []\<rparr>, us_reading = None, us_net = \<lparr>n_log = []\<rparr>,
        us_session = fst (session_new 1 0 (V4 (Ipv4Addr 1 2 3 4) 9) (Domain [97] 1) UdpAssociate)\<rparr> =
      (Some 4, Pending, st1) \<and> d_in (us_client st1) = (frame_tail, Open) \<and> n_log (us_net st1) = []) \<and>
   fst (demo_udp_run datagram_within_frame) = Ready (Inl (InvalidAddressType 8))"
proof
  let ?st = "\<lparr>us_client = \<lparr>d_in = ([], Open), d_sent = []\<rparr>, us_reading = None, us_net = \<lparr>n_log = []\<rparr>,
    us_session = fst (session_new 1 0 (V4 (Ipv4Addr 1 2 3 4) 9) (Domain [97] 1) UdpAssociate)\<rparr>
    :: (duplex, udp_net) udp_state"
  have split: "frame_tail \<noteq> []" "d_in (us_client ?st) = ([], Open)" "us_reading ?st = None"
    "(2 :: nat) < 0 + from_secs 60"
    by (simp_all add: frame_tail_def from_secs_def)
  have writes: "succeeded (fst (udp_write_all demo_udp_ops (datagram_bytes ([7], V4 (Ipv4Addr 9 9 9 9) 53)) c))"
    for c
    by (simp add: demo_udp_ops_def mem_udp_ops_def duplex_write_all_def)
  from udp_cancellation_loses_bytes [OF demo_udp_laws split_frame_wire split(1,2,3) writes split(4),
      where elapsed = False and ?t1.0 = 1 and ?u1.0 = 1 and ?u2.0 = 2 and ?t3.0 = 3 and ?u3.0 = 4 and
        ?t4.0 = 5 and ?u4.0 = 5 and client_first = False]
  show "\<exists>st1. udp_loop demo_udp_ops (mem_arrive d_in duplex_put) (from_secs 60) 0
      [(1, 1, Arrive frame_head Open), (2, 2, Wake),
       (3, 4, Datagram False (Inr ([7], V4 (Ipv4Addr 9 9 9 9) 53))), (5, 5, Arrive frame_tail Open)] ?st =
      (Some 4, Pending, st1) \<and> d_in (us_client st1) = (frame_tail, Open) \<and> n_log (us_net st1) = []"
    by (elim conjE exE) (intro exI conjI, assumption+, simp)
  show "fst (demo_udp_run datagram_within_frame) = Ready (Inl (InvalidAddressType 8))"
    by (simp add: datagram_within_frame_run)
qed

text \<open>The two theorems about an association, on the run that keeps the frame.\<close>

theorem udp_accounting_witness:
  "case fst (snd (snd (demo_udp_run frame_then_datagram))) of
      None \<Rightarrow> False
    | Some u \<Rightarrow> bytes_sent (snd (snd (snd (demo_udp_run frame_then_datagram)))) =
        of_nat (sum_list (map (length \<circ> snd) (n_log u)))"
proof -
  note run = frame_then_datagram_run [unfolded demo_udp_run_def]
  from udp_accounting [OF demo_udp_laws run] show ?thesis
    by (simp add: frame_then_datagram_run session_new_def)
qed

theorem udp_in_order_witness:
  "\<exists>pieces fs'. list_all (piece_ok early_eof) pieces \<and>
     Sublist.prefix (concat (map snd pieces)) (frame_head @ frame_tail) \<and> losses pieces \<le> 1 \<and>
     subseq fs' (frames_in pieces) \<and> list_all2 sent_for fs' [(V4 (Ipv4Addr 8 8 8 8) 53, [0x68, 0x69])]"
proof -
  note run = frame_then_datagram_run [unfolded demo_udp_run_def]
  from udp_in_order [OF demo_udp_laws run] show ?thesis by (simp add: frame_then_datagram_def)
qed

end
