(* ===== verification/Connections.thy ===== *)
theory Connections
  imports Configs Udp
begin

text \<open>
  src/server.rs, \<open>handle_connection\<close> and \<open>compute_header_end\<close>: peeking the header of a connection
  as its bytes come in, authenticating it, and dispatching it to the proxies or to the fallback.
\<close>

section \<open>The code\<close>

text \<open>\<^const>\<open>None\<close> is a panic, which slicing and parsing could cause.\<close>

definition compute_header_end :: "header \<Rightarrow> bytes \<Rightarrow> nat option" where
  "compute_header_end hdr buf =
     (let addr_start = PASSWORD_HEX_LEN + 2 + 1 in
      if length buf \<le> addr_start then Some (length buf)
      else do {
        addr_buf \<leftarrow> slice_from buf addr_start;
        parsed \<leftarrow> parse_from_buf addr_buf;
        case parsed of
          Inr (_, Some addr_len) \<Rightarrow> Some (addr_start + addr_len + 2)
        | _ \<Rightarrow> Some (length buf)
      })"

text \<open>How the loop that peeks the header ends.\<close>

datatype peek_end =
    Authenticated header bytes
  | ToFallback bytes
  | NoData
  | PeekError trojan_error
  | PeekWaiting

function peek_header ::
  "'s async_reader \<Rightarrow> rstring list \<Rightarrow> bytes \<Rightarrow> 's \<Rightarrow> peek_end option \<times> 's" where
  "peek_header R pws peeked s =
     (if PEEK_SIZE \<le> length peeked then (Some (ToFallback peeked), s)
      else
        (case peek_client_data R (PEEK_SIZE - length peeked) s of
           (Pending, s) \<Rightarrow> (Some PeekWaiting, s)
         | (Ready (Inl e), s) \<Rightarrow> (Some (PeekError e), s)
         | (Ready (Inr chunk), s) \<Rightarrow>
             if chunk = [] then
               (if peeked = [] then (Some NoData, s) else (Some (ToFallback peeked), s))
             else
               (case try_parse_from_buf (peeked @ chunk) of
                  None \<Rightarrow> (None, s)
                | Some (Inr (Some h)) \<Rightarrow>
                    if verify_password h pws then (Some (Authenticated h (peeked @ chunk)), s)
                    else (Some (ToFallback (peeked @ chunk)), s)
                | Some (Inr None) \<Rightarrow> peek_header R pws (peeked @ chunk) s
                | Some (Inl e) \<Rightarrow> (Some (ToFallback (peeked @ chunk)), s))))"
  by pat_completeness auto
termination
  by (relation "measure (\<lambda>(R, pws, peeked, s). PEEK_SIZE - length peeked)") (auto intro!: diff_less_mono2)

declare peek_header.simps [simp del]

text \<open>
  The streams of a connection: reading the raw client stream, relaying it to a fallback, and the
  two proxies over the prefixed stream.
\<close>

record ('s, 't, 'u) server_ops =
  sv_reader :: "'s async_reader"
  sv_fallback :: "('s, 't) tunnel_ops"
  sv_tcp :: "('s prefixed, 't) tunnel_ops"
  sv_udp :: "('s prefixed, 'u) udp_ops"
  sv_arrive :: "bytes \<Rightarrow> stream_end \<Rightarrow> 's prefixed \<Rightarrow> 's prefixed"

text \<open>What became of a connection: the result of its handler and the streams it leaves.\<close>

datatype ('s, 't, 'u) connection_end =
    Panicked
  | Unanswered "(trojan_error + unit) poll" 's
  | FellBack "('s, 't, unit) handled"
  | ProxiedTcp session "('s prefixed, 't, unit) handled"
  | ProxiedUdp "(trojan_error + unit) poll \<times> 's prefixed \<times> 'u option \<times> session"

text \<open>
  The environment of one connection: the session counter as it finds it, the clock when its session begins
  and when its UDP loop does, and the turns of that loop.
\<close>

record connection_env =
  ce_SESSION_ID :: u64
  ce_now :: nanos
  ce_udp_start :: nanos
  ce_turns :: "timed_turn list"

text \<open>The handler returns what became of the connection, and the session counter.\<close>

definition dispatch ::
  "('s, 't, 'u) server_ops \<Rightarrow> config \<Rightarrow> socket_addr \<Rightarrow> connection_env \<Rightarrow> header \<Rightarrow> 's prefixed \<Rightarrow>
   ('s, 't, 'u) connection_end \<times> u64" where
  "dispatch ops config peer_addr env header client_stream =
     (case session_new (ce_SESSION_ID env) (ce_now env) peer_addr (h_address header) (h_command header) of
        (session, SESSION_ID) \<Rightarrow>
          (case h_command header of
             Connect \<Rightarrow>
               (case handle_tcp (sv_tcp ops) client_stream (h_address header) session
                  (from_secs (tcp_timeout config)) of (s, r) \<Rightarrow> (ProxiedTcp s r, SESSION_ID))
           | UdpAssociate \<Rightarrow>
               (ProxiedUdp (handle_udp (sv_udp ops) (sv_arrive ops) client_stream session
                  (from_secs (udp_timeout config)) (udp_bind_addr config) (ce_udp_start env) (ce_turns env)),
                SESSION_ID)))"

definition handle_connection ::
  "('s, 't, 'u) server_ops \<Rightarrow> config \<Rightarrow> socket_addr \<Rightarrow> connection_env \<Rightarrow> 's \<Rightarrow>
   ('s, 't, 'u) connection_end \<times> u64" where
  "handle_connection ops config peer_addr env stream =
     (case peek_header (sv_reader ops) (passwords config) [] stream of
        (None, _) \<Rightarrow> (Panicked, ce_SESSION_ID env)
      | (Some PeekWaiting, stream) \<Rightarrow> (Unanswered Pending stream, ce_SESSION_ID env)
      | (Some (PeekError e), stream) \<Rightarrow> (Unanswered (Ready (Inl e)) stream, ce_SESSION_ID env)
      | (Some NoData, stream) \<Rightarrow> (Unanswered (Ready (Inr ())) stream, ce_SESSION_ID env)
      | (Some (ToFallback peeked), stream) \<Rightarrow>
          (FellBack (handle_fallback (sv_fallback ops) stream peeked (fallback_addr config)), ce_SESSION_ID env)
      | (Some (Authenticated header peeked), stream) \<Rightarrow>
          (case do {
              header_end \<leftarrow> compute_header_end header peeked;
              slice_from peeked header_end
            } of
             None \<Rightarrow> (Panicked, ce_SESSION_ID env)
           | Some leftover \<Rightarrow>
               dispatch ops config peer_addr env header (prefixed_new leftover stream)))"

section \<open>The verdict on a client\<close>

text \<open>
  The specification: what a connection deserves, read off everything the client sends and how its
  stream ends, independently of how the bytes are fragmented.
\<close>

datatype verdict = Accept header | Reject | Silent | Fails io_error | Undecided

definition client_verdict :: "rstring list \<Rightarrow> view \<Rightarrow> verdict" where
  "client_verdict pws v =
     (case try_parse_from_buf (fst v) of
        Some (Inr (Some h)) \<Rightarrow> if verify_password h pws then Accept h else Reject
      | Some (Inr None) \<Rightarrow>
          (case snd v of
             Closed \<Rightarrow> if fst v = [] then Silent else Reject
           | Broken e \<Rightarrow> Fails e
           | Open \<Rightarrow> Undecided)
      | _ \<Rightarrow> Reject)"

lemma verdict_decided:
  assumes "try_parse_from_buf p = Some r" and "r \<noteq> Inr None"
  shows "client_verdict pws (p @ bs, fin) =
    (case r of
       Inr (Some h) \<Rightarrow> if verify_password h pws then Accept h else Reject
     | _ \<Rightarrow> Reject)"
  using try_parse_append [OF assms, of bs] assms(2)
  by (auto simp: client_verdict_def split: sum.splits option.splits)

lemma verdict_end:
  "try_parse_from_buf p = Some (Inr None) \<Longrightarrow>
   client_verdict pws (p, fin) =
     (case fin of Closed \<Rightarrow> if p = [] then Silent else Reject | Broken e \<Rightarrow> Fails e | Open \<Rightarrow> Undecided)"
  by (simp add: client_verdict_def)

lemma verdict_Accept_iff:
  "client_verdict pws (bs, fin) = Accept h \<longleftrightarrow>
   (\<exists>w rest. wire_header h w \<and> bs = w @ rest) \<and> verify_password h pws"
proof -
  have "client_verdict pws (bs, fin) = Accept h \<longleftrightarrow>
      try_parse_from_buf bs = Some (Inr (Some h)) \<and> verify_password h pws"
    by (auto simp: client_verdict_def split: option.splits sum.splits stream_end.splits if_splits)
  then show ?thesis by (simp add: try_parse_Some_iff)
qed

section \<open>Peeking\<close>

text \<open>How a run of the loop relates to the verdict on the whole stream.\<close>

definition peek_agrees ::
  "rstring list \<Rightarrow> view \<Rightarrow> view \<Rightarrow> peek_end \<Rightarrow> bool" where
  "peek_agrees pws v v' e \<longleftrightarrow> snd v' = snd v \<and>
     (case e of
        Authenticated h p \<Rightarrow> client_verdict pws v = Accept h \<and> p @ fst v' = fst v \<and>
          try_parse_from_buf p = Some (Inr (Some h))
      | ToFallback p \<Rightarrow> client_verdict pws v = Reject \<and> p @ fst v' = fst v
      | NoData \<Rightarrow> client_verdict pws v = Silent
      | PeekError err \<Rightarrow> (\<exists>e'. err = Io e' \<and> client_verdict pws v = Fails e')
      | PeekWaiting \<Rightarrow> client_verdict pws v = Undecided)"

context async_read
begin

lemma peek_none:
  assumes "vw s = ([], fin)" and "0 < n" and "rd_read R = rd"
  obtains s' where "vw s' = ([], fin)" "peek_client_data R n s =
      (case fin of Closed \<Rightarrow> Ready (Inr []) | Broken e \<Rightarrow> Ready (Inl (Io e)) | Open \<Rightarrow> Pending, s')"
proof -
  from read_none [OF assms(2,1)] obtain s' where "vw s' = ([], fin)" "rd n s =
      (case fin of Closed \<Rightarrow> Ready (Inr []) | Broken e \<Rightarrow> Ready (Inl e) | Open \<Rightarrow> Pending, s')" .
  then show thesis
    by (intro that [of s'])
      (simp_all add: peek_client_data_def assms(3) await_def io_try_def split: stream_end.splits)
qed

lemma peek_some:
  assumes "vw s = (bs, fin)" and "bs \<noteq> []" and "0 < n" and "rd_read R = rd"
  obtains k s' where "0 < k" "k \<le> n" "k \<le> length bs" "vw s' = (drop k bs, fin)"
    "peek_client_data R n s = (Ready (Inr (take k bs)), s')"
proof -
  from read_some [OF assms(3,1,2)] obtain k s' where "0 < k" "k \<le> n" "k \<le> length bs"
    "rd n s = (Ready (Inr (take k bs)), s')" "vw s' = (drop k bs, fin)" .
  then show thesis
    by (intro that [of k s']) (simp_all add: peek_client_data_def assms(4) await_def io_try_def)
qed

lemma peek_header_agrees:
  assumes "try_parse_from_buf peeked = Some (Inr None)" and "vw s = (bs, fin)"
    and "rd_read R = rd"
  shows "\<exists>e s'. peek_header R pws peeked s = (Some e, s') \<and>
    peek_agrees pws (peeked @ bs, fin) (vw s') e"
  using assms
proof (induction R pws peeked s arbitrary: bs rule: peek_header.induct)
  case (1 R pws peeked s)
  have space: "length peeked < PEEK_SIZE"
    using try_parse_more_length [OF "1.prems"(1)] by (simp add: PEEK_SIZE_def)
  then have n: "0 < PEEK_SIZE - length peeked" by simp
  show ?case
  proof (cases "bs = []")
    case True
    with "1.prems"(2) have "vw s = ([], fin)" by simp
    then obtain s' where "vw s' = ([], fin)"
      "peek_client_data R (PEEK_SIZE - length peeked) s =
       (case fin of Closed \<Rightarrow> Ready (Inr []) | Broken e \<Rightarrow> Ready (Inl (Io e)) | Open \<Rightarrow> Pending, s')"
      by (rule peek_none [OF _ n "1.prems"(3)])
    with space True verdict_end [OF "1.prems"(1), of pws fin] show ?thesis
      by (subst peek_header.simps) (auto simp: peek_agrees_def split: stream_end.splits)
  next
    case False
    obtain k s' where k: "0 < k" "k \<le> length bs" "vw s' = (drop k bs, fin)"
      "peek_client_data R (PEEK_SIZE - length peeked) s = (Ready (Inr (take k bs)), s')"
      by (rule peek_some [OF "1.prems"(2) False n "1.prems"(3)])
    let ?p = "peeked @ take k bs"
    have chunk: "take k bs \<noteq> []" using k False by simp
    have all: "?p @ drop k bs = peeked @ bs" by simp
    obtain r where r: "try_parse_from_buf ?p = Some r" using try_parse_total by fastforce
    show ?thesis
    proof (cases "r = Inr None")
      case True
      have "peek_header R pws peeked s = peek_header R pws ?p s'"
        using space k chunk r True by (subst peek_header.simps) simp
      moreover have "\<exists>e s''. peek_header R pws ?p s' = (Some e, s'') \<and>
          peek_agrees pws (?p @ drop k bs, fin) (vw s'') e"
        by (rule "1.IH" [OF _ k(4) [symmetric] refl refl chunk r True refl _ k(3) "1.prems"(3)])
          (use space r True in simp_all)
      ultimately show ?thesis by simp
    next
      case False
      from verdict_decided [OF r False, of pws "drop k bs" fin]
      show ?thesis
        using space k chunk r False
        by (subst peek_header.simps)
          (auto simp: peek_agrees_def split: sum.splits option.splits)
    qed
  qed
qed

end

section \<open>Dispatching\<close>

lemma compute_header_end_wire:
  assumes "wire_header h w"
  shows "compute_header_end h (w @ rest) = Some (length w)"
  using assms
proof cases
  case (wire_headerI pw a v c)
  then have "parse_from_buf (drop 59 (w @ rest)) = Some (Inr (a, Some (length v)))"
    by (simp add: parse_wire)
  with wire_headerI show ?thesis
    by (simp add: compute_header_end_def PASSWORD_HEX_LEN_def)
qed

lemma peek_header_keeps:
  assumes "peek_header R pws peeked s = (e, s')" and "\<And>n. keeps g (rd_read R n)"
  shows "g s' = g s"
  using assms
proof (induction R pws peeked s arbitrary: e s' rule: peek_header.induct)
  case (1 R pws peeked s)
  have peek: "keeps g (peek_client_data R n)" for n
    unfolding peek_client_data_def by (intro sim_intros "1.prems"(2))
  obtain q t where q: "peek_client_data R (PEEK_SIZE - length peeked) s = (q, t)" by fastforce
  with peek have t: "g t = g s" by (rule keeps_apply)
  show ?case
  proof (cases "\<exists>chunk. q = Ready (Inr chunk) \<and> \<not> PEEK_SIZE \<le> length peeked \<and> chunk \<noteq> [] \<and>
      try_parse_from_buf (peeked @ chunk) = Some (Inr None)")
    case True
    then obtain chunk where c: "q = Ready (Inr chunk)" "\<not> PEEK_SIZE \<le> length peeked" "chunk \<noteq> []"
      "try_parse_from_buf (peeked @ chunk) = Some (Inr None)" by blast
    with q "1.prems"(1) have "peek_header R pws (peeked @ chunk) t = (e, s')"
      by (subst (asm) peek_header.simps) simp
    from "1.IH" [OF c(2) q [symmetric] c(1) refl c(3,4) refl refl this "1.prems"(2)] t
    show ?thesis by simp
  next
    case False
    with q t "1.prems"(1) show ?thesis
      by (subst (asm) peek_header.simps)
        (auto split: poll.splits sum.splits option.splits if_splits)
  qed
qed

text \<open>What the handler does, by the verdict on the client.\<close>

definition follows_verdict ::
  "('s, 't, 'u) server_ops \<Rightarrow> config \<Rightarrow> socket_addr \<Rightarrow> connection_env \<Rightarrow> ('s \<Rightarrow> view) \<Rightarrow>
   's \<Rightarrow> ('s, 't, 'u) connection_end \<times> u64 \<Rightarrow> bool" where
  "follows_verdict ops config peer_addr env vw s result \<longleftrightarrow>
     (case client_verdict (passwords config) (vw s) of
        Accept h \<Rightarrow> \<exists>w rest p. wire_header h w \<and> fst (vw s) = w @ rest \<and>
          prefixed_view vw p = (rest, snd (vw s)) \<and> result = dispatch ops config peer_addr env h p
      | Reject \<Rightarrow> \<exists>peeked s'. peeked @ fst (vw s') = fst (vw s) \<and> snd (vw s') = snd (vw s) \<and>
          result = (FellBack (handle_fallback (sv_fallback ops) s' peeked (fallback_addr config)), ce_SESSION_ID env)
      | Silent \<Rightarrow> \<exists>s'. result = (Unanswered (Ready (Inr ())) s', ce_SESSION_ID env)
      | Fails e \<Rightarrow> \<exists>s'. result = (Unanswered (Ready (Inl (Io e))) s', ce_SESSION_ID env)
      | Undecided \<Rightarrow> \<exists>s'. result = (Unanswered Pending s', ce_SESSION_ID env))"

lemma handle_connection_peeked:
  assumes law: "read_law vw (rd_read (sv_reader ops))"
  obtains (accept) h w leftover s' where
      "client_verdict (passwords config) (vw s) = Accept h" "wire_header h w"
      "fst (vw s) = w @ leftover @ fst (vw s')" "snd (vw s') = snd (vw s)"
      "peek_header (sv_reader ops) (passwords config) [] s = (Some (Authenticated h (w @ leftover)), s')"
      "handle_connection ops config peer_addr env s =
         dispatch ops config peer_addr env h (prefixed_new leftover s')"
  | (reject) p s' where
      "client_verdict (passwords config) (vw s) = Reject"
      "p @ fst (vw s') = fst (vw s)" "snd (vw s') = snd (vw s)"
      "peek_header (sv_reader ops) (passwords config) [] s = (Some (ToFallback p), s')"
      "handle_connection ops config peer_addr env s =
         (FellBack (handle_fallback (sv_fallback ops) s' p (fallback_addr config)), ce_SESSION_ID env)"
  | (silent) s' where "client_verdict (passwords config) (vw s) = Silent"
      "handle_connection ops config peer_addr env s = (Unanswered (Ready (Inr ())) s', ce_SESSION_ID env)"
  | (fails) e s' where "client_verdict (passwords config) (vw s) = Fails e"
      "handle_connection ops config peer_addr env s = (Unanswered (Ready (Inl (Io e))) s', ce_SESSION_ID env)"
  | (undecided) s' where "client_verdict (passwords config) (vw s) = Undecided"
      "handle_connection ops config peer_addr env s = (Unanswered Pending s', ce_SESSION_ID env)"
proof -
  have empty: "try_parse_from_buf [] = Some (Inr None)" by (simp add: try_parse_short)
  from async_read.peek_header_agrees [OF async_read.intro [OF law] empty, of s "fst (vw s)" "snd (vw s)",
      where R = "sv_reader ops" and pws = "passwords config"]
  obtain e s' where peek: "peek_header (sv_reader ops) (passwords config) [] s = (Some e, s')"
    "peek_agrees (passwords config) (vw s) (vw s') e" by auto
  show thesis
  proof (cases e)
    case (Authenticated h p)
    with peek have v: "client_verdict (passwords config) (vw s) = Accept h" "p @ fst (vw s') = fst (vw s)"
      "try_parse_from_buf p = Some (Inr (Some h))" "snd (vw s') = snd (vw s)"
      by (simp_all add: peek_agrees_def)
    from v(3) obtain w leftover where w: "wire_header h w" "p = w @ leftover"
      by (auto simp: try_parse_Some_iff)
    then have "handle_connection ops config peer_addr env s =
        dispatch ops config peer_addr env h (prefixed_new leftover s')"
      using peek(1) Authenticated
      by (simp add: handle_connection_def compute_header_end_wire)
    with v w peek(1) Authenticated show thesis by (intro accept [of h w leftover s']) simp_all
  next
    case (ToFallback p)
    with peek show thesis
      by (intro reject [of p s']) (simp_all add: peek_agrees_def handle_connection_def)
  next
    case NoData
    with peek show thesis
      by (intro silent [of s']) (simp_all add: peek_agrees_def handle_connection_def)
  next
    case (PeekError err)
    with peek obtain e' where "err = Io e'" "client_verdict (passwords config) (vw s) = Fails e'"
      by (auto simp: peek_agrees_def)
    with PeekError peek show thesis
      by (intro fails [of e' s']) (simp_all add: handle_connection_def)
  next
    case PeekWaiting
    with peek show thesis
      by (intro undecided [of s']) (simp_all add: peek_agrees_def handle_connection_def)
  qed
qed

lemma handle_connection_verdict:
  assumes "read_law vw (rd_read (sv_reader ops))"
  shows "follows_verdict ops config peer_addr env vw s (handle_connection ops config peer_addr env s)"
proof -
  note peeked = handle_connection_peeked [OF assms, of config s peer_addr env]
  show ?thesis
  proof (rule peeked)
    fix h w leftover s'
    assume v: "client_verdict (passwords config) (vw s) = Accept h" and w: "wire_header h w"
      "fst (vw s) = w @ leftover @ fst (vw s')" "snd (vw s') = snd (vw s)"
      and run: "handle_connection ops config peer_addr env s =
         dispatch ops config peer_addr env h (prefixed_new leftover s')"
    have "\<exists>w rest p. wire_header h w \<and> fst (vw s) = w @ rest \<and>
        prefixed_view vw p = (rest, snd (vw s)) \<and>
        handle_connection ops config peer_addr env s = dispatch ops config peer_addr env h p"
      by (intro exI [of _ w] exI [of _ "leftover @ fst (vw s')"]
          exI [of _ "prefixed_new leftover s'"]) (simp add: w run)
    then show ?thesis by (simp add: follows_verdict_def v)
  next
    fix p s'
    assume "client_verdict (passwords config) (vw s) = Reject"
      "p @ fst (vw s') = fst (vw s)" "snd (vw s') = snd (vw s)"
      "handle_connection ops config peer_addr env s =
         (FellBack (handle_fallback (sv_fallback ops) s' p (fallback_addr config)), ce_SESSION_ID env)"
    then show ?thesis
      by (auto simp: follows_verdict_def intro!: exI [of _ p] exI [of _ s'])
  qed (simp_all add: follows_verdict_def)
qed

section \<open>The streams of a connection\<close>

text \<open>
  What the server relies on: the client's stream is a documented reader, reading it writes
  nothing to it, and the relays and the UDP socket behave as documented on it and on the prefixed
  stream over it.
\<close>

definition server_laws ::
  "('s, 't, 'u) server_ops \<Rightarrow> ('s \<Rightarrow> view) \<Rightarrow> ('s \<Rightarrow> bytes) \<Rightarrow> ('t \<Rightarrow> view) \<Rightarrow> ('t \<Rightarrow> bytes) \<Rightarrow>
   ('u \<Rightarrow> (socket_addr \<times> bytes) list) \<Rightarrow> io_error \<Rightarrow> bool" where
  "server_laws ops vw sentc vwt sentt log eof \<longleftrightarrow>
     read_law vw (rd_read (sv_reader ops)) \<and>
     (\<forall>n. keeps sentc (rd_read (sv_reader ops) n)) \<and>
     tunnel_laws (sv_fallback ops) vw sentc vwt sentt \<and>
     tunnel_laws (sv_tcp ops) (prefixed_view vw) (sentc \<circ> inner) vwt sentt \<and>
     udp_laws (sv_udp ops) (sv_arrive ops) (prefixed_view vw) (sentc \<circ> inner) log eof"

locale server_streams =
  fixes ops :: "('s, 't, 'u) server_ops"
    and vw :: "'s \<Rightarrow> view" and sentc :: "'s \<Rightarrow> bytes"
    and vwt :: "'t \<Rightarrow> view" and sentt :: "'t \<Rightarrow> bytes"
    and log :: "'u \<Rightarrow> (socket_addr \<times> bytes) list" and eof :: io_error
  assumes laws: "server_laws ops vw sentc vwt sentt log eof"
begin

lemma client_laws: "read_law vw (rd_read (sv_reader ops))" "\<And>n. keeps sentc (rd_read (sv_reader ops) n)"
  using laws by (simp_all add: server_laws_def)

lemma fallback_laws: "tunnel_laws (sv_fallback ops) vw sentc vwt sentt"
  using laws by (simp add: server_laws_def)

lemma tcp_laws: "tunnel_laws (sv_tcp ops) (prefixed_view vw) (sentc \<circ> inner) vwt sentt"
  using laws by (simp add: server_laws_def)

lemma association_laws:
  "udp_laws (sv_udp ops) (sv_arrive ops) (prefixed_view vw) (sentc \<circ> inner) log eof"
  using laws by (simp add: server_laws_def)

end

sublocale server_streams \<subseteq> client: async_read vw "rd_read (sv_reader ops)"
  by unfold_locales (rule client_laws)

sublocale server_streams \<subseteq> fallback: tunnel "sv_fallback ops" vw sentc vwt sentt
  by unfold_locales (rule fallback_laws)

sublocale server_streams \<subseteq> tcp: tunnel "sv_tcp ops" "prefixed_view vw" "sentc \<circ> inner" vwt sentt
  by unfold_locales (rule tcp_laws)

sublocale server_streams \<subseteq>
    udp: udp_relay "sv_udp ops" "sv_arrive ops" "prefixed_view vw" "sentc \<circ> inner" log eof
  by unfold_locales (rule association_laws)

context server_streams
begin

lemma rejected:
  assumes "client_verdict (passwords config) (vw s) = Reject"
  shows "\<exists>r c' t'. handle_connection ops config peer env s = (FellBack (r, c', t'), ce_SESSION_ID env) \<and>
    (case t' of
       None \<Rightarrow> sentc c' = sentc s \<and> r \<noteq> Ready (Inr ())
     | Some b \<Rightarrow> \<exists>b0 back. tcp_connect (sv_fallback ops) (fallback_addr config) = Ready (Inr b0) \<and>
         Sublist.prefix (sentt b) (fst (vw s)) \<and>
         sentc c' = sentc s @ back \<and> Sublist.prefix back (fst (vwt b0)) \<and>
         (r = Ready (Inr ()) \<longrightarrow> sentt b = fst (vw s) \<and> back = fst (vwt b0)))"
  using client_laws(1)
proof (cases rule: handle_connection_peeked [of vw ops config s peer env])
  case (reject p s')
  note sent = peek_header_keeps [OF reject(4) client_laws(2)]
  obtain r c' t' where fb: "handle_fallback (sv_fallback ops) s' p (fallback_addr config) = (r, c', t')"
    by (metis prod_cases3)
  from fallback.fallback_run [OF fb] reject(2,5) sent fb show ?thesis
    by (auto split: option.splits)
qed (use assms in simp_all)

lemma accepted:
  assumes "wire_header h w" and "fst (vw s) = w @ payload" and "verify_password h (passwords config)"
  obtains p where "prefixed_view vw p = (payload, snd (vw s))" "sentc (inner p) = sentc s"
    "handle_connection ops config peer env s = dispatch ops config peer env h p"
proof -
  have "client_verdict (passwords config) (fst (vw s), snd (vw s)) = Accept h"
    unfolding verdict_Accept_iff using assms by blast
  then have verdict: "client_verdict (passwords config) (vw s) = Accept h" by simp
  from client_laws(1) show thesis
  proof (cases rule: handle_connection_peeked [of vw ops config s peer env])
    case (accept h' w' leftover s')
    then have "h' = h" using verdict by simp
    moreover have "w' = w"
    proof -
      have "(wire_header h w' \<and> wire_header h w) \<and> w' @ leftover @ fst (vw s') = w @ payload"
        using accept assms \<open>h' = h\<close> by simp
      then show ?thesis
        using compute_header_end_wire [of h w' "leftover @ fst (vw s')"]
          compute_header_end_wire [of h w payload]
        by (metis append_eq_append_conv option.inject)
    qed
    moreover have "sentc s' = sentc s"
      using accept(5) client_laws(2) by (rule peek_header_keeps)
    ultimately show thesis
      using accept assms(2)
      by (intro that [of "prefixed_new leftover s'"]) simp_all
  qed (use verdict in simp_all)
qed

end

section \<open>In-memory connections\<close>

definition mem_server_ops ::
  "(rstring \<Rightarrow> view option) \<Rightarrow> (rstring \<Rightarrow> u16 \<Rightarrow> socket_addr list) \<Rightarrow>
   (duplex, duplex, udp_net) server_ops" where
  "mem_server_ops net hosts = \<lparr>sv_reader = lifted_reader d_in duplex_put,
     sv_fallback = duplex_ops net, sv_tcp = prefixed_duplex_ops net,
     sv_udp = mem_udp_ops (prefixed_view d_in) prefixed_put prefixed_write_all hosts,
     sv_arrive = mem_arrive (prefixed_view d_in) prefixed_put\<rparr>"

lemma server_laws_mem:
  "server_laws (mem_server_ops net hosts) d_in d_sent d_in d_sent n_log early_eof"
proof -
  have "byte_stream_laws (lifted_reader d_in duplex_put) d_in early_eof"
    by (rule byte_stream_laws_lifted) (simp add: duplex_put_def)
  then have "read_law d_in (rd_read (lifted_reader d_in duplex_put))"
    by (simp add: byte_stream_laws_def)
  moreover have "keeps d_sent (rd_read (lifted_reader d_in duplex_put) n)" for n
    by (simp add: lifted_reader_def keeps_lifted duplex_put_def)
  ultimately show ?thesis
    by (simp add: server_laws_def mem_server_ops_def tunnel_laws_duplex tunnel_laws_prefixed
        udp_laws_prefixed)
qed

interpretation mem_server: server_streams "mem_server_ops net hosts" d_in d_sent d_in d_sent n_log
    early_eof for net hosts
  by unfold_locales (rule server_laws_mem)

text \<open>A client with the password of \<open>example_config\<close>.\<close>

definition demo_header :: "command \<Rightarrow> header" where
  "demo_header cmd = \<lparr>h_password_hash = replicate 56 0x61, h_command = cmd,
     h_address = Domain [0x61] 80\<rparr>"

definition demo_wire :: "command \<Rightarrow> bytes" where
  "demo_wire cmd = replicate 56 0x61 @ [0x0d, 0x0a] @ [as_u8 cmd] @ [3, 1, 0x61, 0, 80] @ [0x0d, 0x0a]"

definition demo_client :: "command \<Rightarrow> bytes \<Rightarrow> stream_end \<Rightarrow> duplex" where
  "demo_client cmd payload fin = \<lparr>d_in = (demo_wire cmd @ payload, fin), d_sent = []\<rparr>"

definition demo_net :: "rstring \<Rightarrow> view option" where
  "demo_net = [ascii ''a:80'' \<mapsto> ([5, 6], Closed), ascii ''127.0.0.1:80'' \<mapsto> ([4], Closed)]"

definition demo_env :: "timed_turn list \<Rightarrow> connection_env" where
  "demo_env turns = \<lparr>ce_SESSION_ID = 1, ce_now = 0, ce_udp_start = 0, ce_turns = turns\<rparr>"

lemma demo_wire_ok: "wire_header (demo_header cmd) (demo_wire cmd)"
proof -
  have "wire_address (Domain [0x61] 80) (3 # of_nat (length [0x61 :: u8]) # [0x61] @ to_be (80 :: u16))"
    by (rule wire_domain) simp_all
  then have "wire_address (Domain [0x61] 80) [3, 1, 0x61, 0, 80]"
    by (simp add: to_be_u16)
  from wire_headerI [OF _ _ this, of "replicate 56 0x61" cmd] show ?thesis
    by (simp add: demo_header_def demo_wire_def is_ascii_hexdigit_def del: as_u8.simps)
qed

lemma demo_verified: "verify_password (demo_header cmd) (passwords example_config)"
  by (simp add: demo_header_def verify_password_def example_config_def PASSWORD_HEX_LEN_def)

lemma demo_client_view: "d_in (demo_client cmd payload fin) = (demo_wire cmd @ payload, fin)"
  by (simp add: demo_client_def)

lemma demo_reject: "client_verdict pws ([0x47, 0x45], Closed) = Reject"
  by (simp add: client_verdict_def try_parse_short)

lemma demo_fallback: "fallback_addr example_config = ascii ''127.0.0.1:80''"
  by (simp add: example_config_def default_fallback_addr_def)

section \<open>Properties\<close>

text \<open>
  C1. The handling of a connection depends only on what the client sends, not on how the bytes are
  fragmented or when they come: it follows the verdict on the whole stream and never panics. An
  accepted client is dispatched with a stream that delivers exactly the bytes behind its header; a
  rejected one goes to the fallback with every byte it has sent, peeked or not, accounted for; a
  client that sends nothing and closes is dropped silently; a stream that breaks is an error; and
  while the header is undecided and the stream open, the handler waits.
\<close>

theorem connection_follows_verdict:
  assumes "read_law vw (rd_read (sv_reader ops))"
  shows "case client_verdict (passwords config) (vw s) of
      Accept h \<Rightarrow> \<exists>w rest p. wire_header h w \<and> fst (vw s) = w @ rest \<and>
        prefixed_view vw p = (rest, snd (vw s)) \<and>
        handle_connection ops config peer_addr env s = dispatch ops config peer_addr env h p
    | Reject \<Rightarrow> \<exists>peeked s'. peeked @ fst (vw s') = fst (vw s) \<and> snd (vw s') = snd (vw s) \<and>
        handle_connection ops config peer_addr env s =
          (FellBack (handle_fallback (sv_fallback ops) s' peeked (fallback_addr config)), ce_SESSION_ID env)
    | Silent \<Rightarrow> \<exists>s'. handle_connection ops config peer_addr env s = (Unanswered (Ready (Inr ())) s', ce_SESSION_ID env)
    | Fails e \<Rightarrow> \<exists>s'. handle_connection ops config peer_addr env s = (Unanswered (Ready (Inl (Io e))) s', ce_SESSION_ID env)
    | Undecided \<Rightarrow> \<exists>s'. handle_connection ops config peer_addr env s = (Unanswered Pending s', ce_SESSION_ID env)"
  using handle_connection_verdict [OF assms] by (simp add: follows_verdict_def)

theorem connection_follows_verdict_witness:
  "\<exists>peeked s'. peeked @ fst (d_in s') = [0x47, 0x45] \<and> snd (d_in s') = Closed \<and>
     handle_connection (mem_server_ops demo_net (\<lambda>_ _. [])) example_config (V4 (Ipv4Addr 1 2 3 4) 9) (demo_env [])
       \<lparr>d_in = ([0x47, 0x45], Closed), d_sent = []\<rparr> =
     (FellBack (handle_fallback (duplex_ops demo_net) s' peeked (ascii ''127.0.0.1:80'')), 1)"
  using connection_follows_verdict [OF mem_server.client_laws(1) [of demo_net "\<lambda>_ _. []"],
      where config = example_config and s = "\<lparr>d_in = ([0x47, 0x45], Closed), d_sent = []\<rparr>" and
        peer_addr = "V4 (Ipv4Addr 1 2 3 4) 9" and env = "demo_env []"]
  by (simp add: demo_reject demo_fallback) (simp add: mem_server_ops_def demo_env_def)

text \<open>
  C4. Authentication is not bypassed: whenever a connection is proxied, over TCP or UDP, the client
  has sent a well-formed header whose password hash equals, up to the case of its hex digits, one of
  the configured hashes of 56 characters; and a session is opened for the target of that header.
\<close>

fun proxied_session :: "('s, 't, 'u) connection_end \<Rightarrow> session option" where
  "proxied_session (ProxiedTcp s _) = Some s"
| "proxied_session (ProxiedUdp (_, _, _, s)) = Some s"
| "proxied_session _ = None"

theorem proxied_only_authenticated:
  assumes "read_law vw (rd_read (sv_reader ops))"
    and "proxied_session (fst (handle_connection ops config peer_addr env s)) \<noteq> None"
  shows "\<exists>h w rest. wire_header h w \<and> fst (vw s) = w @ rest \<and>
    (\<exists>p \<in> set (passwords config). length p = 56 \<and> eq_ignore_ascii_case p (h_password_hash h)) \<and>
    (\<exists>q. handle_connection ops config peer_addr env s = dispatch ops config peer_addr env h q)"
  using assms(1)
proof (cases rule: handle_connection_peeked [of vw ops config s peer_addr env])
  case (accept h w leftover s')
  from accept(1) have "client_verdict (passwords config) (fst (vw s), snd (vw s)) = Accept h" by simp
  then have "verify_password h (passwords config)" unfolding verdict_Accept_iff by blast
  then have "\<exists>p \<in> set (passwords config). length p = 56 \<and> eq_ignore_ascii_case p (h_password_hash h)"
    by (auto simp: verify_password_def list_ex_iff PASSWORD_HEX_LEN_def)
  with accept show ?thesis by blast
qed (use assms(2) in simp_all)

theorem proxied_only_authenticated_witness:
  "\<exists>h w rest. wire_header h w \<and> demo_wire Connect @ [7, 8] = w @ rest \<and>
    (\<exists>p \<in> set (passwords example_config). length p = 56 \<and> eq_ignore_ascii_case p (h_password_hash h))"
proof -
  let ?s = "demo_client Connect [7, 8] Closed"
  have "fst (d_in ?s) = demo_wire Connect @ [7, 8]" by (simp add: demo_client_view)
  then obtain p where "prefixed_view d_in p = ([7, 8], snd (d_in ?s))" "d_sent (inner p) = d_sent ?s"
      "handle_connection (mem_server_ops demo_net (\<lambda>_ _. [])) example_config
      (V4 (Ipv4Addr 1 2 3 4) 9) (demo_env []) ?s =
      dispatch (mem_server_ops demo_net (\<lambda>_ _. [])) example_config (V4 (Ipv4Addr 1 2 3 4) 9)
        (demo_env []) (demo_header Connect) p"
    by (rule mem_server.accepted [OF demo_wire_ok _ demo_verified])
  then have "proxied_session (fst (handle_connection (mem_server_ops demo_net (\<lambda>_ _. [])) example_config
      (V4 (Ipv4Addr 1 2 3 4) 9) (demo_env []) ?s)) \<noteq> None"
    by (simp add: dispatch_def demo_header_def session_new_def split: prod.splits)
  from proxied_only_authenticated [OF mem_server.client_laws(1) this] show ?thesis
    by (auto simp: demo_client_view)
qed

text \<open>
  C3. A client that is not authenticated only ever talks to the fallback: of any rejected stream the
  backend receives an initial part from the very first byte, the client receives nothing but what
  the backend sends, and when the relay succeeds everything has been passed on both ways; when the
  backend cannot be reached the client receives nothing.
\<close>

theorem rejected_sees_only_fallback:
  assumes "server_laws ops vw sentc vwt sentt log eof"
    and "client_verdict (passwords config) (vw s) = Reject"
  shows "\<exists>r c' t'. handle_connection ops config peer env s = (FellBack (r, c', t'), ce_SESSION_ID env) \<and>
    (case t' of
       None \<Rightarrow> sentc c' = sentc s \<and> r \<noteq> Ready (Inr ())
     | Some b \<Rightarrow> \<exists>b0 back. tcp_connect (sv_fallback ops) (fallback_addr config) = Ready (Inr b0) \<and>
         Sublist.prefix (sentt b) (fst (vw s)) \<and>
         sentc c' = sentc s @ back \<and> Sublist.prefix back (fst (vwt b0)) \<and>
         (r = Ready (Inr ()) \<longrightarrow> sentt b = fst (vw s) \<and> back = fst (vwt b0)))"
  by (rule server_streams.rejected [OF server_streams.intro [OF assms(1)] assms(2)])

theorem rejected_sees_only_fallback_witness:
  "\<exists>r c' t'. handle_connection (mem_server_ops demo_net (\<lambda>_ _. [])) example_config
       (V4 (Ipv4Addr 1 2 3 4) 9) (demo_env []) \<lparr>d_in = ([0x47, 0x45], Closed), d_sent = []\<rparr> =
       (FellBack (r, c', t'), 1) \<and>
     (case t' of
        None \<Rightarrow> d_sent c' = []
      | Some b \<Rightarrow> Sublist.prefix (d_sent b) [0x47, 0x45] \<and> Sublist.prefix (d_sent c') [4])"
proof -
  let ?s = "\<lparr>d_in = ([0x47, 0x45], Closed), d_sent = []\<rparr>"
  have "client_verdict (passwords example_config) (d_in ?s) = Reject" by (simp add: demo_reject)
  from rejected_sees_only_fallback [OF server_laws_mem [of demo_net "\<lambda>_ _. []"] this,
      of "V4 (Ipv4Addr 1 2 3 4) 9" "demo_env []"]
  obtain r c' t' where run: "handle_connection (mem_server_ops demo_net (\<lambda>_ _. [])) example_config
       (V4 (Ipv4Addr 1 2 3 4) 9) (demo_env []) ?s = (FellBack (r, c', t'), ce_SESSION_ID (demo_env []))"
    and ends: "case t' of
       None \<Rightarrow> d_sent c' = d_sent ?s \<and> r \<noteq> Ready (Inr ())
     | Some b \<Rightarrow> \<exists>b0 back. tcp_connect (sv_fallback (mem_server_ops demo_net (\<lambda>_ _. [])))
           (fallback_addr example_config) = Ready (Inr b0) \<and>
         Sublist.prefix (d_sent b) (fst (d_in ?s)) \<and>
         d_sent c' = d_sent ?s @ back \<and> Sublist.prefix back (fst (d_in b0)) \<and>
         (r = Ready (Inr ()) \<longrightarrow> d_sent b = fst (d_in ?s) \<and> back = fst (d_in b0))"
    by blast
  have "demo_net (ascii ''127.0.0.1:80'') = Some ([4], Closed)" by (simp add: demo_net_def)
  with ends have "case t' of
        None \<Rightarrow> d_sent c' = []
      | Some b \<Rightarrow> Sublist.prefix (d_sent b) [0x47, 0x45] \<and> Sublist.prefix (d_sent c') [4]"
    by (auto simp: mem_server_ops_def duplex_ops_def duplex_connect_def demo_fallback
        split: option.splits)
  with run show ?thesis by (simp add: demo_env_def)
qed

text \<open>
  C5. An authenticated CONNECT is proxied end to end: however the header and the payload were
  fragmented, the target (when it can be connected to) receives an initial part of exactly the bytes
  behind the header, the client an initial part of what the target sends and nothing else, and on
  success both received everything and the session has counted the bytes.
\<close>

theorem authenticated_connect_proxied:
  assumes laws: "server_laws ops vw sentc vwt sentt log eof"
    and header: "wire_header h w" "fst (vw s) = w @ payload" "h_command h = Connect"
    and auth: "verify_password h (passwords config)"
  shows "\<exists>s' r c' t'. handle_connection ops config peer env s = (ProxiedTcp s' (r, c', t'), ce_SESSION_ID env + 1) \<and>
    (case connect_target (sv_tcp ops) (from_secs (tcp_timeout config)) (h_address h) of
       Elapsed \<Rightarrow> r = Ready (Inl Timeout) \<and> sentc (inner c') = sentc s
     | InTime (Inl e) \<Rightarrow>
         r = Ready (Inl (RemoteConnectFailed (io_message e))) \<and> sentc (inner c') = sentc s
     | InTime (Inr b0) \<Rightarrow> \<exists>b back. t' = Some b \<and> Sublist.prefix (sentt b) payload \<and>
         sentc (inner c') = sentc s @ back \<and> Sublist.prefix back (fst (vwt b0)) \<and>
         (r = Ready (Inr ()) \<longrightarrow> sentt b = payload \<and> back = fst (vwt b0) \<and>
            bytes_sent s' = of_nat (length payload) \<and> bytes_received s' = of_nat (length back)))"
proof -
  have streams: "server_streams ops vw sentc vwt sentt log eof"
    using laws by (rule server_streams.intro)
  obtain p where p: "prefixed_view vw p = (payload, snd (vw s))" "sentc (inner p) = sentc s"
    "handle_connection ops config peer env s = dispatch ops config peer env h p"
    by (rule server_streams.accepted [OF streams header(1,2) auth])
  let ?s = "fst (session_new (ce_SESSION_ID env) (ce_now env) peer (h_address h) Connect)"
  obtain s' r c' t' where run: "handle_tcp (sv_tcp ops) p (h_address h) ?s (from_secs (tcp_timeout config)) =
      (s', r, c', t')" by (metis prod_cases4)
  from tunnel.tcp_run [OF tunnel.intro [OF server_streams.tcp_laws [OF streams]] run] p run header(3)
  show ?thesis
    by (auto simp: dispatch_def session_new_def split: timed.splits sum.splits)
qed

theorem authenticated_connect_proxied_witness:
  "\<exists>s' r c' t'. handle_connection (mem_server_ops demo_net (\<lambda>_ _. [])) example_config
       (V4 (Ipv4Addr 1 2 3 4) 9) (demo_env []) (demo_client Connect [7, 8] Closed) =
     (ProxiedTcp s' (r, c', t'), 2) \<and>
     (\<exists>b. t' = Some b \<and> Sublist.prefix (d_sent b) [7, 8] \<and> Sublist.prefix (d_sent (inner c')) [5, 6])"
proof -
  let ?ops = "mem_server_ops demo_net (\<lambda>_ _. [])"
  have key: "[0x61] @ ascii '':'' @ show_dec (uint (80 :: u16)) = ascii ''a:80''"
    by (simp add: eval_simps show_dec_def show_radix.simps digit_def)
  have conn: "connect_target (sv_tcp ?ops) (from_secs (tcp_timeout example_config)) (Domain [0x61] 80) =
      InTime (Inr \<lparr>d_in = ([5, 6], Closed), d_sent = []\<rparr>)"
    by (simp only: connect_target.simps key)
      (simp add: mem_server_ops_def prefixed_duplex_ops_def duplex_ops_def duplex_connect_def
        demo_net_def eval_simps)
  have "h_address (demo_header Connect) = Domain [0x61] 80" "h_command (demo_header Connect) = Connect"
    by (simp_all add: demo_header_def)
  with authenticated_connect_proxied [OF server_laws_mem demo_wire_ok _ _ demo_verified,
      of "demo_client Connect [7, 8] Closed" Connect "[7, 8]" demo_net "\<lambda>_ _. []"
        "V4 (Ipv4Addr 1 2 3 4) 9" "demo_env []"] conn
  show ?thesis by (fastforce simp: demo_client_def demo_env_def)
qed

text \<open>
  C6. An authenticated UDP association forwards the client's frames, on every sequence of turns: the bytes
  behind the header, those peeked with it first, and those arriving later are a sequence of frames and of incomplete
  pieces; the datagrams sent are, in order, payloads of frames in it, each to the address of its frame when
  that is not a name; and no more pieces are lost than datagrams were offered, so that none is when there are no datagrams. The idle
  timeout and the address the socket is bound to are those of the configuration.
\<close>

theorem authenticated_udp_proxied:
  assumes laws: "server_laws ops vw sentc vwt sentt log eof"
    and header: "wire_header h w" "fst (vw s) = w @ payload" "h_command h = UdpAssociate"
    and auth: "verify_password h (passwords config)"
  shows "\<exists>p r c' u' s'. handle_connection ops config peer env s =
      (ProxiedUdp (r, c', u', s'), ce_SESSION_ID env + 1) \<and>
    prefixed_view vw p = (payload, snd (vw s)) \<and>
    handle_udp (sv_udp ops) (sv_arrive ops) p
      (fst (session_new (ce_SESSION_ID env) (ce_now env) peer (h_address h) UdpAssociate))
      (from_secs (udp_timeout config)) (udp_bind_addr config) (ce_udp_start env) (ce_turns env) = (r, c', u', s') \<and>
    (case u' of
       None \<Rightarrow> sentc (inner c') = sentc s
     | Some u \<Rightarrow> \<exists>pieces fs'. list_all (piece_ok eof) pieces \<and>
         Sublist.prefix (concat (map snd pieces)) (payload @ arrived (snd (vw s)) (turns_of (ce_turns env))) \<and>
         losses pieces \<le> length (offered (turns_of (ce_turns env))) \<and>
         subseq fs' (frames_in pieces) \<and> list_all2 sent_for fs' (log u))"
proof -
  have streams: "server_streams ops vw sentc vwt sentt log eof"
    using laws by (rule server_streams.intro)
  obtain p where p: "prefixed_view vw p = (payload, snd (vw s))" "sentc (inner p) = sentc s"
    "handle_connection ops config peer env s = dispatch ops config peer env h p"
    by (rule server_streams.accepted [OF streams header(1,2) auth])
  let ?s = "fst (session_new (ce_SESSION_ID env) (ce_now env) peer (h_address h) UdpAssociate)"
  obtain r c' u' s' where run: "handle_udp (sv_udp ops) (sv_arrive ops) p ?s (from_secs (udp_timeout config))
      (udp_bind_addr config) (ce_udp_start env) (ce_turns env) = (r, c', u', s')" by (metis prod_cases4)
  have relay: "udp_relay (sv_udp ops) (sv_arrive ops) (prefixed_view vw) (sentc \<circ> inner) log eof"
    using server_streams.association_laws [OF streams] by (rule udp_relay.intro)
  have conn: "handle_connection ops config peer env s = (ProxiedUdp (r, c', u', s'), ce_SESSION_ID env + 1)"
    using p(3) run header(3) by (simp add: dispatch_def session_new_def)
  have "case u' of
       None \<Rightarrow> sentc (inner c') = sentc s
     | Some u \<Rightarrow> in_order eof (payload @ arrived (snd (vw s)) (turns_of (ce_turns env)))
         (length (offered (turns_of (ce_turns env)))) (log u)"
  proof (cases u')
    case None
    from udp_relay.handle_udp_accounts [OF relay run] None p(2) show ?thesis by simp
  next
    case (Some u)
    from udp_relay.handle_udp_in_order [OF relay run [unfolded Some]] p(1) Some show ?thesis by simp
  qed
  with conn run p(1) show ?thesis unfolding in_order_def by blast
qed

theorem authenticated_udp_proxied_witness:
  "\<exists>r c' u' s'. handle_connection (mem_server_ops demo_net (\<lambda>_ _. [])) example_config
       (V4 (Ipv4Addr 1 2 3 4) 9) (demo_env [(1, 1, Arrive frame_tail Open), (2, 2, Wake)])
       (demo_client UdpAssociate frame_head Open) = (ProxiedUdp (r, c', u', s'), 2) \<and>
     (case u' of
        None \<Rightarrow> d_sent (inner c') = []
      | Some u \<Rightarrow> \<exists>pieces fs'. list_all (piece_ok early_eof) pieces \<and>
          Sublist.prefix (concat (map snd pieces)) (frame_head @ frame_tail) \<and> losses pieces \<le> 0 \<and>
          subseq fs' (frames_in pieces) \<and> list_all2 sent_for fs' (n_log u))"
proof -
  let ?s = "demo_client UdpAssociate frame_head Open"
  let ?env = "demo_env [(1, 1, Arrive frame_tail Open), (2, 2, Wake)]"
  have cmd: "h_command (demo_header UdpAssociate) = UdpAssociate" by (simp add: demo_header_def)
  have start: "fst (d_in ?s) = demo_wire UdpAssociate @ frame_head" by (simp add: demo_client_view)
  have facts: "d_sent ?s = []" "arrived (snd (d_in ?s)) (turns_of (ce_turns ?env)) = frame_tail"
    "length (offered (turns_of (ce_turns ?env))) = 0" "ce_SESSION_ID ?env + 1 = 2"
    by (simp_all add: demo_client_def demo_env_def)
  from authenticated_udp_proxied [OF server_laws_mem demo_wire_ok start cmd demo_verified, of demo_net
      "\<lambda>_ _. []" "V4 (Ipv4Addr 1 2 3 4) 9" ?env, unfolded facts]
  show ?thesis by (elim exE conjE) (intro exI conjI, assumption+)
qed

end
