(* ===== verification/Tls.thy ===== *)
theory Tls
  imports Errors
begin

text \<open>
  src/tls.rs and src/reality/handshake.rs: loading the certificate chain and the private key, and
  the two TLS server configurations the crate builds from them. Opening a file, the PEM parser and
  rustls are parameters; a \<open>ServerConfig\<close> is its public fields the code assigns and a rest
  \<open>'r\<close> only rustls looks into.
\<close>

section \<open>The libraries\<close>

datatype tls_version = TLS12 | TLS13

record 'r server_config =
  alpn_protocols :: "bytes list"
  ignore_client_order :: bool
  session_storage :: "nat option"
  rustls_private :: 'r

text \<open>
  \<open>rustls_pemfile::certs\<close> is an iterator of results, \<open>private_key\<close> the first key of the file.
  \<open>single_cert\<close> is the builder chain of \<open>TlsConfig::new\<close> and \<open>cert_resolver\<close> the one of
  \<open>build_server_config\<close>, which cannot fail; the resolver it is given answers with a chain and a
  signing key, if it can. \<open>tls_accept\<close> is the server side of a handshake.
\<close>

record ('f, 'cert, 'key, 'sk, 'r, 's, 't) tls_env =
  open_file :: "rstring \<Rightarrow> io_error + 'f"
  pem_certs :: "'f \<Rightarrow> (io_error + 'cert) list"
  pem_private_key :: "'f \<Rightarrow> io_error + 'key option"
  single_cert :: "tls_version list \<Rightarrow> 'cert list \<Rightarrow> 'key \<Rightarrow> rstring + 'r server_config"
  cert_resolver :: "('cert list \<times> 'sk) option \<Rightarrow> 'r server_config"
  any_supported_type :: "'key \<Rightarrow> rstring + 'sk"
  tls_accept :: "'r server_config \<Rightarrow> 's \<Rightarrow> (io_error + 't) poll"

text \<open>\<open>collect::<Result<Vec<_>, _>>\<close>: all the values, or the first error.\<close>

fun collect_results :: "('e + 'a) list \<Rightarrow> 'e + 'a list" where
  "collect_results [] = Inr []"
| "collect_results (Inl e # rs) = Inl e"
| "collect_results (Inr x # rs) =
     (case collect_results rs of Inl e \<Rightarrow> Inl e | Inr xs \<Rightarrow> Inr (x # xs))"

text \<open>\<open>filter_map(|c| c.ok())\<close>.\<close>

fun keep_ok :: "('e + 'a) list \<Rightarrow> 'a list" where
  "keep_ok [] = []"
| "keep_ok (Inl e # rs) = keep_ok rs"
| "keep_ok (Inr x # rs) = x # keep_ok rs"

text \<open>\<open>map_err(|e| TrojanError::Tls(format!(...)))\<close>.\<close>

definition map_tls :: "string \<Rightarrow> ('e \<Rightarrow> rstring) \<Rightarrow> 'e + 'a \<Rightarrow> 'a res" where
  "map_tls msg show r = (case r of Inl e \<Rightarrow> Inl (Tls (ascii msg @ show e)) | Inr x \<Rightarrow> Inr x)"

section \<open>src/tls.rs\<close>

definition load_certs :: "('f, 'cert, 'key, 'sk, 'r, 's, 't) tls_env \<Rightarrow> rstring \<Rightarrow> 'cert list res" where
  "load_certs env path =
     bind_res (map_tls ''Failed to open certificate file: '' io_message (open_file env path)) (\<lambda>file.
     bind_res (map_tls ''Failed to parse certificate chain: '' io_message
       (collect_results (pem_certs env file))) (\<lambda>certs.
     if certs = [] then Inl (Tls (ascii ''No certificates found in file'')) else Inr certs))"

definition load_key :: "('f, 'cert, 'key, 'sk, 'r, 's, 't) tls_env \<Rightarrow> rstring \<Rightarrow> 'key res" where
  "load_key env path =
     bind_res (map_tls ''Failed to open key file: '' io_message (open_file env path)) (\<lambda>file.
     bind_res (map_tls ''Failed to parse private key: '' io_message (pem_private_key env file)) (\<lambda>key.
     case key of
       Some key \<Rightarrow> Inr key
     | None \<Rightarrow> Inl (Tls (ascii ''No private key found in file''))))"

record 'r tls_config =
  tc_acceptor :: "'r server_config"

definition tls_config_new ::
  "('f, 'cert, 'key, 'sk, 'r, 's, 't) tls_env \<Rightarrow> rstring \<Rightarrow> rstring \<Rightarrow> 'r tls_config res" where
  "tls_config_new env cert_path key_path =
     bind_res (load_certs env cert_path) (\<lambda>certs.
     bind_res (load_key env key_path) (\<lambda>key.
     bind_res (map_tls ''Failed to create TLS config: '' id (single_cert env [TLS13] certs key)) (\<lambda>config.
     Inr \<lparr>tc_acceptor = config\<lparr>alpn_protocols := [ascii ''h2'', ascii ''http/1.1''],
       ignore_client_order := True\<rparr>\<rparr>)))"

definition acceptor :: "'r tls_config \<Rightarrow> 'r server_config" where
  "acceptor c = tc_acceptor c"

section \<open>src/reality/handshake.rs\<close>

definition reality_load_certs ::
  "('f, 'cert, 'key, 'sk, 'r, 's, 't) tls_env \<Rightarrow> rstring \<Rightarrow> 'cert list res" where
  "reality_load_certs env path =
     bind_res (map_tls ''Failed to open cert file: '' io_message (open_file env path)) (\<lambda>file.
     (let certs = keep_ok (pem_certs env file) in
      if certs = [] then Inl (Tls (ascii ''No certificates found'')) else Inr certs))"

definition load_private_key ::
  "('f, 'cert, 'key, 'sk, 'r, 's, 't) tls_env \<Rightarrow> rstring \<Rightarrow> 'key res" where
  "load_private_key env path =
     bind_res (map_tls ''Failed to open key file: '' io_message (open_file env path)) (\<lambda>file.
     bind_res (map_tls ''Failed to parse key: '' io_message (pem_private_key env file)) (\<lambda>key.
     case key of
       Some key \<Rightarrow> Inr key
     | None \<Rightarrow> Inl (Tls (ascii ''No private key found''))))"

record ('cert, 'key) reality_config =
  rc_cert_chain :: "'cert list"
  rc_private_key :: 'key
  rc_target_domain :: rstring
  rc_alpn_protocols :: "bytes list"

definition reality_config_new ::
  "('f, 'cert, 'key, 'sk, 'r, 's, 't) tls_env \<Rightarrow> rstring \<Rightarrow> rstring \<Rightarrow> rstring \<Rightarrow>
   ('cert, 'key) reality_config res" where
  "reality_config_new env cert_path key_path target_domain =
     bind_res (reality_load_certs env cert_path) (\<lambda>cert_chain.
     bind_res (load_private_key env key_path) (\<lambda>private_key.
     Inr \<lparr>rc_cert_chain = cert_chain, rc_private_key = private_key,
       rc_target_domain = target_domain,
       rc_alpn_protocols = [ascii ''h2'', ascii ''http/1.1'']\<rparr>))"

definition cert_chain :: "('cert, 'key) reality_config \<Rightarrow> 'cert list" where
  "cert_chain config = rc_cert_chain config"

definition private_key :: "('cert, 'key) reality_config \<Rightarrow> 'key" where
  "private_key config = rc_private_key config"

text \<open>\<open>CertResolver\<close>: the client's hello is ignored, and a key rustls cannot sign with gives no answer.\<close>

definition resolve ::
  "('f, 'cert, 'key, 'sk, 'r, 's, 't) tls_env \<Rightarrow> 'cert list \<Rightarrow> 'key \<Rightarrow> ('cert list \<times> 'sk) option" where
  "resolve env chain key =
     (case any_supported_type env key of
        Inl e \<Rightarrow> None
      | Inr signing_key \<Rightarrow> Some (chain, signing_key))"

definition build_server_config ::
  "('f, 'cert, 'key, 'sk, 'r, 's, 't) tls_env \<Rightarrow> ('cert, 'key) reality_config \<Rightarrow>
   'r server_config res" where
  "build_server_config env config =
     Inr ((cert_resolver env (resolve env (rc_cert_chain config) (rc_private_key config)))
       \<lparr>alpn_protocols := rc_alpn_protocols config, session_storage := Some 256\<rparr>)"

record 'r reality_handshake =
  rh_config :: "'r server_config"
  rh_fallback_config :: "'r server_config option"

definition reality_handshake_new ::
  "('f, 'cert, 'key, 'sk, 'r, 's, 't) tls_env \<Rightarrow> ('cert, 'key) reality_config \<Rightarrow>
   'r reality_handshake res" where
  "reality_handshake_new env config =
     bind_res (build_server_config env config) (\<lambda>server_config.
     Inr \<lparr>rh_config = server_config, rh_fallback_config = None\<rparr>)"

definition with_fallback ::
  "('f, 'cert, 'key, 'sk, 'r, 's, 't) tls_env \<Rightarrow> ('cert, 'key) reality_config \<Rightarrow>
   'r reality_handshake \<Rightarrow> 'r reality_handshake res" where
  "with_fallback env fallback_config h =
     bind_res (build_server_config env fallback_config) (\<lambda>fallback.
     Inr (h\<lparr>rh_fallback_config := Some fallback\<rparr>))"

definition reality_accept ::
  "('f, 'cert, 'key, 'sk, 'r, 's, 't) tls_env \<Rightarrow> 'r reality_handshake \<Rightarrow> 's \<Rightarrow> 't res poll" where
  "reality_accept env h stream =
     (case tls_accept env (rh_config h) stream of
        Pending \<Rightarrow> Pending
      | Ready r \<Rightarrow> Ready (from_io r))"

text \<open>
  The client configuration that imitates a browser: what rustls builds for an empty root store and no
  client certificate, with the ALPN list set.
\<close>

record 'c client_config =
  cl_alpn_protocols :: "bytes list"
  cl_private :: 'c

definition get_browsersim_config :: "'c client_config \<Rightarrow> 'c client_config" where
  "get_browsersim_config built = built\<lparr>cl_alpn_protocols := [ascii ''h2'', ascii ''http/1.1'']\<rparr>"

section \<open>Facts\<close>

lemma collect_map_Inr [simp]: "collect_results (map Inr xs) = Inr xs"
  by (induction xs) simp_all

lemma collect_results_Inr_iff: "collect_results rs = Inr xs \<longleftrightarrow> rs = map Inr xs"
proof
  show "collect_results rs = Inr xs \<Longrightarrow> rs = map Inr xs"
    by (induction rs arbitrary: xs rule: collect_results.induct) (auto split: sum.splits)
qed simp

lemma keep_ok_all: "range Inl \<inter> set rs = {} \<Longrightarrow> rs = map Inr (keep_ok rs)"
  by (induction rs rule: keep_ok.induct) auto

lemma collect_results_range_Inl: "collect_results rs \<in> range Inl \<longleftrightarrow> set rs \<inter> range Inl \<noteq> {}"
  by (induction rs rule: collect_results.induct) (auto split: sum.splits)

lemma keep_ok_map_Inr [simp]: "keep_ok (map Inr xs) = xs"
  by (induction xs) simp_all

lemma keep_ok_Nil_iff: "keep_ok rs = [] \<longleftrightarrow> set rs \<inter> range Inr = {}"
  by (induction rs rule: keep_ok.induct) auto

lemma map_tls_Inr_iff: "map_tls m f r = Inr x \<longleftrightarrow> r = Inr x"
  by (auto simp: map_tls_def split: sum.splits)

lemma map_tls_Inl: "map_tls m f r = Inl e \<Longrightarrow> e \<in> range Tls"
  by (auto simp: map_tls_def split: sum.splits)

lemma load_certs_Inr_iff:
  "load_certs env path = Inr certs \<longleftrightarrow>
   (\<exists>file. open_file env path = Inr file \<and> pem_certs env file = map Inr certs \<and> certs \<noteq> [])"
  by (auto simp: load_certs_def bind_res_Inr_iff map_tls_Inr_iff collect_results_Inr_iff)

lemma load_key_Inr_iff:
  "load_key env path = Inr key \<longleftrightarrow>
   (\<exists>file. open_file env path = Inr file \<and> pem_private_key env file = Inr (Some key))"
  by (auto simp: load_key_def bind_res_Inr_iff map_tls_Inr_iff split: option.splits)

lemma load_private_key_Inr_iff:
  "load_private_key env path = Inr key \<longleftrightarrow>
   (\<exists>file. open_file env path = Inr file \<and> pem_private_key env file = Inr (Some key))"
  by (auto simp: load_private_key_def bind_res_Inr_iff map_tls_Inr_iff split: option.splits)

lemma reality_load_certs_Inr_iff:
  "reality_load_certs env path = Inr certs \<longleftrightarrow>
   (\<exists>file. open_file env path = Inr file \<and> keep_ok (pem_certs env file) = certs \<and> certs \<noteq> [])"
  by (auto simp: reality_load_certs_def bind_res_Inr_iff map_tls_Inr_iff Let_def)

lemma bind_res_range:
  "m \<in> range Inr \<union> Inl ` E \<Longrightarrow> (\<And>x. m = Inr x \<Longrightarrow> f x \<in> range Inr \<union> Inl ` E) \<Longrightarrow>
   bind_res m f \<in> range Inr \<union> Inl ` E"
  by (auto simp: bind_res_def split: sum.splits)

lemma map_tls_range: "map_tls m f r \<in> range Inr \<union> Inl ` range Tls"
  by (auto simp: map_tls_def split: sum.splits)

lemmas tls_ranges = bind_res_range map_tls_range

lemma load_ranges:
  "load_certs env path \<in> range Inr \<union> Inl ` range Tls"
  "load_key env path \<in> range Inr \<union> Inl ` range Tls"
  "reality_load_certs env path \<in> range Inr \<union> Inl ` range Tls"
  "load_private_key env path \<in> range Inr \<union> Inl ` range Tls"
  unfolding load_certs_def load_key_def reality_load_certs_def load_private_key_def Let_def
  by (intro tls_ranges; auto split: option.splits)+

section \<open>Properties\<close>

text \<open>
  \<open>TlsConfig::new\<close> succeeds exactly when both files open, every section the PEM parser finds in
  the certificate file is a certificate and there is one, the key file has a key, and rustls
  accepts the pair for TLS 1.3 alone; the acceptor then offers h2 before http/1.1 and ignores the
  client's cipher order. Every failure is a TLS error.
\<close>

theorem tls_config_exact:
  "(tls_config_new env cert_path key_path = Inr c \<longleftrightarrow>
     (\<exists>file certs key_file key config.
        open_file env cert_path = Inr file \<and> pem_certs env file = map Inr certs \<and> certs \<noteq> [] \<and>
        open_file env key_path = Inr key_file \<and> pem_private_key env key_file = Inr (Some key) \<and>
        single_cert env [TLS13] certs key = Inr config \<and>
        acceptor c = config\<lparr>alpn_protocols := [ascii ''h2'', ascii ''http/1.1''],
          ignore_client_order := True\<rparr>)) \<and>
   tls_config_new env cert_path key_path \<in> range Inr \<union> Inl ` range Tls"
proof
  show "tls_config_new env cert_path key_path \<in> range Inr \<union> Inl ` range Tls"
    unfolding tls_config_new_def by (intro tls_ranges load_ranges) auto
qed (cases c, auto simp: tls_config_new_def bind_res_Inr_iff load_certs_Inr_iff load_key_Inr_iff
    map_tls_Inr_iff acceptor_def)

text \<open>
  The two loaders of a certificate chain agree on every file the PEM parser reads to its end.
  They differ on files with a section that does not parse: \<open>TlsConfig\<close> refuses those, while
  \<open>RealityConfig\<close> drops the section and serves the chain that is left, if anything is. The two
  loaders of the key always agree.
\<close>

theorem reality_loader_lenient:
  "(load_certs env path = Inr certs \<longleftrightarrow>
      reality_load_certs env path = Inr certs \<and>
      \<not> (\<exists>file e. open_file env path = Inr file \<and> Inl e \<in> set (pem_certs env file))) \<and>
   (reality_load_certs env path \<in> range Inr \<and> load_certs env path \<in> range Inl \<longleftrightarrow>
      (\<exists>file c e. open_file env path = Inr file \<and>
         Inr c \<in> set (pem_certs env file) \<and> Inl e \<in> set (pem_certs env file))) \<and>
   (load_key env path = Inr key \<longleftrightarrow> load_private_key env path = Inr key)"
proof (intro conjI)
  show "load_key env path = Inr key \<longleftrightarrow> load_private_key env path = Inr key"
    by (simp add: load_key_Inr_iff load_private_key_Inr_iff)
  show "load_certs env path = Inr certs \<longleftrightarrow> reality_load_certs env path = Inr certs \<and>
      \<not> (\<exists>file e. open_file env path = Inr file \<and> Inl e \<in> set (pem_certs env file))"
    using keep_ok_all by (fastforce simp: load_certs_Inr_iff reality_load_certs_Inr_iff)
  show "reality_load_certs env path \<in> range Inr \<and> load_certs env path \<in> range Inl \<longleftrightarrow>
      (\<exists>file c e. open_file env path = Inr file \<and>
         Inr c \<in> set (pem_certs env file) \<and> Inl e \<in> set (pem_certs env file))"
  proof (cases "open_file env path")
    case (Inl e)
    then show ?thesis by (auto simp: reality_load_certs_def map_tls_def)
  next
    case (Inr f)
    have "load_certs env path \<in> range Inl \<longleftrightarrow>
        set (pem_certs env f) \<inter> range Inl \<noteq> {} \<or> pem_certs env f = []"
      unfolding collect_results_range_Inl [symmetric] using Inr
      by (auto simp: load_certs_def map_tls_def collect_results_Inr_iff split: sum.splits)
    moreover have "reality_load_certs env path \<in> range Inr \<longleftrightarrow> set (pem_certs env f) \<inter> range Inr \<noteq> {}"
      unfolding keep_ok_Nil_iff [symmetric] using Inr
      by (auto simp: reality_load_certs_def map_tls_def)
    ultimately show ?thesis using Inr by auto
  qed
qed

text \<open>
  Building a \<open>RealityHandshake\<close> never fails, not even when rustls cannot sign with the key
  (the resolver then has no certificate for any client); \<open>with_fallback\<close> never fails either, and
  has no effect: the handshake with a client is the same with and without a fallback configuration.
\<close>

theorem reality_fallback_unused:
  "\<exists>h h'. reality_handshake_new env config = Inr h \<and>
     with_fallback env fallback_config h = Inr h' \<and>
     reality_accept env h' stream = reality_accept env h stream \<and>
     alpn_protocols (rh_config h') = rc_alpn_protocols config"
  by (simp add: reality_handshake_new_def build_server_config_def with_fallback_def
      reality_accept_def)

end
