(* ===== verification/Servers.thy ===== *)
theory Servers
  imports Connections Tls
begin

text \<open>
  src/server.rs, \<open>Server\<close>: the accept loop and the limit on concurrent connections. The loop and the
  spawned connection tasks interleave; every thing that happens is an event, and the state of the
  server is a fold of a step function over the events.
\<close>

section \<open>The code\<close>

record 'r server =
  srv_config :: config
  srv_tls_config :: "'r tls_config"
  connection_limit :: nat

text \<open>
  \<open>Semaphore::new\<close> is documented to panic (\<^const>\<open>None\<close>) above \<open>Semaphore::MAX_PERMITS\<close>, which is
  \<open>usize::MAX >> 3\<close>.
\<close>

definition MAX_PERMITS :: nat where "MAX_PERMITS = 2 ^ 61 - 1"

definition server_new :: "config \<Rightarrow> 'r tls_config \<Rightarrow> 'r server option" where
  "server_new config tls_config =
     (if MAX_PERMITS < unat (max_connections config) then None
      else Some \<lparr>srv_config = config, srv_tls_config = tls_config,
        connection_limit = unat (max_connections config)\<rparr>)"

text \<open>
  Where the loop of \<open>run\<close> stands (holding a permit while it waits for a connection), and what the
  spawned tasks do; a task owns the permit it was spawned with until it ends.
\<close>

datatype accept_phase = Binding | AcquiringPermit | AcceptingConnection | Stopped trojan_error

datatype task = TlsHandshake socket_addr | Handling socket_addr

record server_state =
  sv_phase :: accept_phase
  sv_permits :: nat
  sv_tasks :: "task list"

definition server_start :: "'r server \<Rightarrow> server_state" where
  "server_start server =
     \<lparr>sv_phase = Binding, sv_permits = connection_limit server, sv_tasks = []\<rparr>"

datatype server_event =
    Bind "io_error + unit"
  | PermitAcquired
  | Accepted "io_error + socket_addr"
  | TlsAccepted nat "io_error + unit"
  | Handled nat "trojan_error + unit"

text \<open>
  One step; \<^const>\<open>None\<close> when the event cannot happen. The semaphore is never closed, so that
  acquiring a permit can wait but not fail. Errors of accepting, of the TLS handshake and of a
  connection are logged and dropped.
\<close>

definition remove_task :: "nat \<Rightarrow> server_state \<Rightarrow> server_state" where
  "remove_task i st = st\<lparr>sv_permits := sv_permits st + 1,
     sv_tasks := take i (sv_tasks st) @ drop (Suc i) (sv_tasks st)\<rparr>"

definition server_step :: "server_event \<Rightarrow> server_state \<Rightarrow> server_state option" where
  "server_step event st =
     (case event of
        Bind r \<Rightarrow>
          if sv_phase st = Binding then
            Some (st\<lparr>sv_phase := (case r of Inl e \<Rightarrow> Stopped (Io e) | Inr _ \<Rightarrow> AcquiringPermit)\<rparr>)
          else None
      | PermitAcquired \<Rightarrow>
          if sv_phase st = AcquiringPermit \<and> 0 < sv_permits st then
            Some (st\<lparr>sv_phase := AcceptingConnection, sv_permits := sv_permits st - 1\<rparr>)
          else None
      | Accepted r \<Rightarrow>
          if sv_phase st = AcceptingConnection then
            (case r of
               Inl e \<Rightarrow> Some (st\<lparr>sv_phase := AcquiringPermit, sv_permits := sv_permits st + 1\<rparr>)
             | Inr peer \<Rightarrow> Some (st\<lparr>sv_phase := AcquiringPermit,
                 sv_tasks := sv_tasks st @ [TlsHandshake peer]\<rparr>))
          else None
      | TlsAccepted i r \<Rightarrow>
          (case index (sv_tasks st) i of
             Some (TlsHandshake peer) \<Rightarrow>
               (case r of
                  Inl e \<Rightarrow> Some (remove_task i st)
                | Inr _ \<Rightarrow> Some (st\<lparr>sv_tasks := (sv_tasks st)[i := Handling peer]\<rparr>))
           | _ \<Rightarrow> None)
      | Handled i r \<Rightarrow>
          (case index (sv_tasks st) i of
             Some (Handling peer) \<Rightarrow> Some (remove_task i st)
           | _ \<Rightarrow> None))"

section \<open>Reachable states\<close>

inductive reachable :: "'r server \<Rightarrow> server_state \<Rightarrow> bool" for server :: "'r server" where
  start: "reachable server (server_start server)"
| step: "reachable server st \<Longrightarrow> server_step event st = Some st' \<Longrightarrow> reachable server st'"

text \<open>The events of a run, for concrete runs.\<close>

fun server_run :: "server_event list \<Rightarrow> server_state \<Rightarrow> server_state option" where
  "server_run [] st = Some st"
| "server_run (event # events) st = Option.bind (server_step event st) (server_run events)"

lemma reachable_run:
  "server_run events st = Some st' \<Longrightarrow> reachable server st \<Longrightarrow> reachable server st'"
proof (induction events arbitrary: st)
  case (Cons event events)
  then show ?case by (auto split: bind_splits intro: reachable.step)
qed simp

text \<open>Every permit is in the semaphore, with the accept loop, or with a task.\<close>

definition permits_held :: "server_state \<Rightarrow> nat" where
  "permits_held st = (if sv_phase st = AcceptingConnection then 1 else 0) + length (sv_tasks st)"

lemma index_Some_iff: "index xs i = Some x \<longleftrightarrow> i < length xs \<and> xs ! i = x"
  by (simp add: index_def)

lemma step_permits:
  "server_step event st = Some st' \<Longrightarrow>
   sv_permits st' + permits_held st' = sv_permits st + permits_held st"
  by (cases event)
    (auto simp: server_step_def index_Some_iff remove_task_def permits_held_def
      split: if_splits sum.splits option.splits task.splits)

lemma reachable_permits:
  "reachable server st \<Longrightarrow> sv_permits st + permits_held st = connection_limit server"
proof (induction rule: reachable.induct)
  case start
  show ?case by (simp add: server_start_def permits_held_def)
next
  case (step st event st')
  then show ?case by (simp add: step_permits)
qed

section \<open>Properties\<close>

text \<open>
  C7. No permit is lost or forged: in every reachable state the free permits, the one the accept
  loop holds and the running connections add up to \<open>max_connections\<close>; so there are never more
  connections than that, and the loop waits for a permit only when all of them are in use.
\<close>

theorem connection_limit_respected:
  assumes "server_new config tls = Some server" and "reachable server st"
  shows "sv_permits st + permits_held st = unat (max_connections config) \<and>
    length (sv_tasks st) \<le> unat (max_connections config) \<and>
    (sv_phase st = AcquiringPermit \<longrightarrow>
       (server_step PermitAcquired st = None \<longleftrightarrow> length (sv_tasks st) = unat (max_connections config)))"
proof -
  have "connection_limit server = unat (max_connections config)"
    using assms(1) by (auto simp: server_new_def split: if_splits)
  with reachable_permits [OF assms(2)] show ?thesis
    by (auto simp: permits_held_def server_step_def)
qed

definition example_tls :: "unit tls_config" where
  "example_tls = \<lparr>tc_acceptor = \<lparr>alpn_protocols = [ascii ''h2'', ascii ''http/1.1''],
     ignore_client_order = True, session_storage = None, rustls_private = ()\<rparr>\<rparr>"

text \<open>A connection that is accepted, while another accept fails, and ends.\<close>

theorem connection_limit_respected_witness:
  "\<exists>server st. server_new example_config example_tls = Some server \<and>
     server_run [Bind (Inr ()), PermitAcquired, Accepted (Inr (V4 (Ipv4Addr 1 2 3 4) 9)),
       TlsAccepted 0 (Inr ()), PermitAcquired, Accepted (Inl early_eof), Handled 0 (Inr ())]
       (server_start server) = Some st \<and>
     sv_permits st + permits_held st = unat (max_connections example_config)"
proof -
  let ?server = "\<lparr>srv_config = example_config, srv_tls_config = example_tls, connection_limit = 1024\<rparr>"
  let ?st = "\<lparr>sv_phase = AcquiringPermit, sv_permits = 1024, sv_tasks = []\<rparr>"
  have new: "server_new example_config example_tls = Some ?server"
    by (simp add: server_new_def example_config_def default_max_connections_def MAX_PERMITS_def)
  have run: "server_run [Bind (Inr ()), PermitAcquired, Accepted (Inr (V4 (Ipv4Addr 1 2 3 4) 9)),
      TlsAccepted 0 (Inr ()), PermitAcquired, Accepted (Inl early_eof), Handled 0 (Inr ())]
      (server_start ?server) = Some ?st"
    by (simp add: server_step_def server_start_def remove_task_def)
  have "reachable ?server ?st" by (rule reachable_run [OF run reachable.start])
  from connection_limit_respected [OF new this] new run show ?thesis by blast
qed

text \<open>
  Validation leaves two values of \<open>max_connections\<close> the server cannot work with: with zero, a
  configuration that passes validation gives a server that never accepts a connection; and above
  \<open>Semaphore::MAX_PERMITS\<close> a validated configuration makes \<open>Server::new\<close> panic.
\<close>

theorem max_connections_unchecked:
  assumes "validate ex config = Inr ()"
  shows "validate ex (config\<lparr>max_connections := 0\<rparr>) = Inr () \<and>
    (\<exists>server. server_new (config\<lparr>max_connections := 0\<rparr>) tls = Some server \<and>
      (\<forall>st. reachable server st \<longrightarrow> sv_tasks st = [] \<and> sv_phase st \<noteq> AcceptingConnection)) \<and>
    validate ex (config\<lparr>max_connections := 2 ^ 61\<rparr>) = Inr () \<and>
    server_new (config\<lparr>max_connections := 2 ^ 61\<rparr>) tls = None"
proof -
  have valid: "validate ex (config\<lparr>max_connections := n\<rparr>) = Inr ()" for n
    using assms by (simp add: validate_iff config_ok_def)
  let ?server = "\<lparr>srv_config = config\<lparr>max_connections := 0\<rparr>, srv_tls_config = tls, connection_limit = 0\<rparr>"
  have "server_new (config\<lparr>max_connections := 0\<rparr>) tls = Some ?server"
    by (simp add: server_new_def)
  moreover have "sv_tasks st = [] \<and> sv_phase st \<noteq> AcceptingConnection" if "reachable ?server st" for st
    using reachable_permits [OF that] by (auto simp: permits_held_def split: if_splits)
  moreover have "server_new (config\<lparr>max_connections := 2 ^ 61\<rparr>) tls = None"
    by (simp add: server_new_def MAX_PERMITS_def)
  ultimately show ?thesis using valid by blast
qed

theorem max_connections_unchecked_witness:
  "server_new (example_config\<lparr>max_connections := 2 ^ 61\<rparr>) example_tls = None"
proof -
  have "validate (\<lambda>_. True) example_config = Inr ()"
    by (simp add: validate_iff example_config_ok)
  from max_connections_unchecked [OF this] show ?thesis by blast
qed

section \<open>Progress\<close>

text \<open>The events that end the task \<open>i\<close>: its handshake fails, or its handler returns, with whatever result.\<close>

definition ends_task :: "nat \<Rightarrow> server_event \<Rightarrow> server_state \<Rightarrow> bool" where
  "ends_task i event st \<longleftrightarrow>
     (case index (sv_tasks st) i of
        Some (TlsHandshake peer) \<Rightarrow> (\<exists>e. event = TlsAccepted i (Inl e))
      | Some (Handling peer) \<Rightarrow> (\<exists>r. event = Handled i r)
      | None \<Rightarrow> False)"

lemma end_task: "ends_task i event st \<Longrightarrow> server_step event st = Some (remove_task i st)"
  by (auto simp: ends_task_def server_step_def split: option.splits task.splits)

lemma ends_task_ex: "i < length (sv_tasks st) \<Longrightarrow> \<exists>event. ends_task i event st"
  by (cases "sv_tasks st ! i") (auto simp: ends_task_def index_def)

lemma accept_from:
  "sv_phase st = AcceptingConnection \<Longrightarrow>
   server_step (Accepted (Inr peer)) st =
     Some (st\<lparr>sv_phase := AcquiringPermit, sv_tasks := sv_tasks st @ [TlsHandshake peer]\<rparr>)"
  by (simp add: server_step_def)

lemma acquire_from:
  "sv_phase st = AcquiringPermit \<Longrightarrow> 0 < sv_permits st \<Longrightarrow>
   server_step PermitAcquired st =
     Some (st\<lparr>sv_phase := AcceptingConnection, sv_permits := sv_permits st - 1\<rparr>)"
  by (simp add: server_step_def)

text \<open>
  C37. A server with at least one permit makes progress. In every reachable state past binding the loop can
  serve a next client: at once when it is accepting, after taking a permit when one is free, and, when none
  is, after the end of any of the running connections, in whichever way it ends, and taking the
  permit that gives back. In that case there are running connections, and each can end.
\<close>

theorem accept_loop_progress:
  assumes "reachable server st" and "0 < connection_limit server"
    and "sv_phase st \<in> {AcquiringPermit, AcceptingConnection}"
  shows "(sv_phase st = AcceptingConnection \<longrightarrow>
      (\<exists>st'. server_run [Accepted (Inr peer)] st = Some st' \<and> sv_phase st' = AcquiringPermit \<and>
         sv_tasks st' = sv_tasks st @ [TlsHandshake peer])) \<and>
    (sv_phase st = AcquiringPermit \<and> 0 < sv_permits st \<longrightarrow>
      (\<exists>st'. server_run [PermitAcquired, Accepted (Inr peer)] st = Some st' \<and> sv_phase st' = AcquiringPermit \<and>
         sv_tasks st' = sv_tasks st @ [TlsHandshake peer])) \<and>
    (sv_phase st = AcquiringPermit \<and> sv_permits st = 0 \<longrightarrow>
      sv_tasks st \<noteq> [] \<and> (\<forall>i < length (sv_tasks st). \<exists>event. ends_task i event st) \<and>
      (\<forall>i event. ends_task i event st \<longrightarrow>
        (\<exists>st'. server_run [event, PermitAcquired, Accepted (Inr peer)] st = Some st' \<and>
           sv_phase st' = AcquiringPermit \<and>
           sv_tasks st' = take i (sv_tasks st) @ drop (Suc i) (sv_tasks st) @ [TlsHandshake peer])))"
proof (intro conjI impI allI)
  show "\<exists>st'. server_run [Accepted (Inr peer)] st = Some st' \<and> sv_phase st' = AcquiringPermit \<and>
      sv_tasks st' = sv_tasks st @ [TlsHandshake peer]" if "sv_phase st = AcceptingConnection"
    using that by (simp add: accept_from)
  show "\<exists>st'. server_run [PermitAcquired, Accepted (Inr peer)] st = Some st' \<and>
      sv_phase st' = AcquiringPermit \<and> sv_tasks st' = sv_tasks st @ [TlsHandshake peer]"
    if "sv_phase st = AcquiringPermit \<and> 0 < sv_permits st"
    using that by (simp add: acquire_from accept_from)
next
  assume full: "sv_phase st = AcquiringPermit \<and> sv_permits st = 0"
  with reachable_permits [OF assms(1)] assms(2) show "sv_tasks st \<noteq> []"
    by (auto simp: permits_held_def)
  show "\<exists>event. ends_task i event st" if "i < length (sv_tasks st)" for i
    using that by (rule ends_task_ex)
  show "\<exists>st'. server_run [event, PermitAcquired, Accepted (Inr peer)] st = Some st' \<and>
      sv_phase st' = AcquiringPermit \<and>
      sv_tasks st' = take i (sv_tasks st) @ drop (Suc i) (sv_tasks st) @ [TlsHandshake peer]"
    if "ends_task i event st" for i event
    using end_task [OF that] full by (simp add: remove_task_def acquire_from accept_from)
qed

text \<open>A server for one connection, which is taken.\<close>

theorem accept_loop_progress_witness:
  "\<exists>st st'. server_run [Bind (Inr ()), PermitAcquired, Accepted (Inr (V4 (Ipv4Addr 1 2 3 4) 9))]
     \<lparr>sv_phase = Binding, sv_permits = 1, sv_tasks = []\<rparr> = Some st \<and> sv_permits st = 0 \<and>
     server_run [TlsAccepted 0 (Inl early_eof), PermitAcquired, Accepted (Inr (V4 (Ipv4Addr 5 6 7 8) 10))] st =
       Some st' \<and>
     sv_tasks st' = [TlsHandshake (V4 (Ipv4Addr 5 6 7 8) 10)]"
proof -
  let ?server = "\<lparr>srv_config = example_config\<lparr>max_connections := 1\<rparr>, srv_tls_config = example_tls,
    connection_limit = 1\<rparr>"
  let ?st = "\<lparr>sv_phase = AcquiringPermit, sv_permits = 0, sv_tasks = [TlsHandshake (V4 (Ipv4Addr 1 2 3 4) 9)]\<rparr>"
  have run: "server_run [Bind (Inr ()), PermitAcquired, Accepted (Inr (V4 (Ipv4Addr 1 2 3 4) 9))]
      (server_start ?server) = Some ?st"
    by (simp add: server_step_def server_start_def)
  have "reachable ?server ?st" by (rule reachable_run [OF run reachable.start])
  moreover have "ends_task 0 (TlsAccepted 0 (Inl early_eof)) ?st" by (simp add: ends_task_def index_def)
  ultimately obtain st' where
    "server_run [TlsAccepted 0 (Inl early_eof), PermitAcquired, Accepted (Inr (V4 (Ipv4Addr 5 6 7 8) 10))] ?st =
       Some st'"
    "sv_tasks st' = [TlsHandshake (V4 (Ipv4Addr 5 6 7 8) 10)]"
    using accept_loop_progress [of ?server ?st "V4 (Ipv4Addr 5 6 7 8) 10"] by fastforce
  moreover have "server_run [Bind (Inr ()), PermitAcquired, Accepted (Inr (V4 (Ipv4Addr 1 2 3 4) 9))]
      \<lparr>sv_phase = Binding, sv_permits = 1, sv_tasks = []\<rparr> = Some ?st"
    using run by (simp only: server_start_def server.simps)
  moreover have "sv_permits ?st = 0" by simp
  ultimately show ?thesis by blast
qed

end
