(* ===== verification/Startup.thy ===== *)
theory Startup
  imports Servers
begin

text \<open>
  src/main.rs: from the command line to a server that listens, and how the process ends. The command
  line parser, the logger and what the earlier theories leave open are parameters.
\<close>

section \<open>The code\<close>

text \<open>\<open>--config\<close>, with the default \<open>clap\<close> fills in when it is not given.\<close>

definition args_config :: "rstring option \<Rightarrow> rstring" where
  "args_config given = (case given of None \<Rightarrow> ascii ''config/config.toml'' | Some path \<Rightarrow> path)"

text \<open>
  \<open>init_tracing\<close>: the filter from the environment, when there is a valid one, else from the
  configured level.
\<close>

definition init_tracing :: "'flt option \<Rightarrow> (rstring \<Rightarrow> 'flt) \<Rightarrow> rstring \<Rightarrow> 'flt" where
  "init_tracing from_default_env new_filter level =
     (case from_default_env of Some env_filter \<Rightarrow> env_filter | None \<Rightarrow> new_filter level)"

text \<open>
  Where \<open>main\<close> gets to: the process ends with an exit code and a message (on standard error or in
  the log), it panics, or the server runs.
\<close>

datatype ('flt, 'r) startup = Exit nat rstring | Panicked | Running 'flt "'r server"

definition main ::
  "config_env \<Rightarrow> ('f, 'cert, 'key, 'sk, 'r, 's, 't) tls_env \<Rightarrow> 'flt option \<Rightarrow> (rstring \<Rightarrow> 'flt) \<Rightarrow>
   rstring option \<Rightarrow> ('flt, 'r) startup" where
  "main cenv tenv env_filter new_filter given =
     (case config_from_file cenv (args_config given) of
        Inl e \<Rightarrow> Exit 1 (ascii ''Failed to load config: '' @ error_display e)
      | Inr config \<Rightarrow>
          (case tls_config_new tenv (tls_cert config) (tls_key config) of
             Inl e \<Rightarrow> Exit 1 (ascii ''Failed to initialize TLS: '' @ error_display e)
           | Inr tls_config \<Rightarrow>
               (case server_new config tls_config of
                  None \<Rightarrow> Panicked
                | Some server \<Rightarrow>
                    Running (init_tracing env_filter new_filter (log_level config)) server)))"

text \<open>What becomes of it: \<open>server.run()\<close> over the events, \<^const>\<open>None\<close> if they cannot happen.\<close>

definition main_run :: "server_event list \<Rightarrow> ('flt, 'r) startup \<Rightarrow> ('flt, 'r) startup option" where
  "main_run events m =
     (case m of
        Running flt server \<Rightarrow>
          (case server_run events (server_start server) of
             None \<Rightarrow> None
           | Some st \<Rightarrow>
               (case sv_phase st of
                  Stopped e \<Rightarrow> Some (Exit 1 (ascii ''Server error: '' @ error_display e))
                | _ \<Rightarrow> Some m))
      | _ \<Rightarrow> if events = [] then Some m else None)"

section \<open>Facts\<close>

lemma tls_config_Inr_iff:
  "tls_config_new env cert_path key_path = Inr c \<longleftrightarrow>
   (\<exists>certs key config. load_certs env cert_path = Inr certs \<and> load_key env key_path = Inr key \<and>
      single_cert env [TLS13] certs key = Inr config \<and>
      c = \<lparr>tc_acceptor = config\<lparr>alpn_protocols := [ascii ''h2'', ascii ''http/1.1''],
        ignore_client_order := True\<rparr>\<rparr>)"
  by (auto simp: tls_config_new_def bind_res_Inr_iff map_tls_Inr_iff)

lemma server_new_Some_iff:
  "server_new config tls = Some server \<longleftrightarrow> unat (max_connections config) \<le> MAX_PERMITS \<and>
     server = \<lparr>srv_config = config, srv_tls_config = tls,
       connection_limit = unat (max_connections config)\<rparr>"
  by (auto simp: server_new_def)

lemma server_run_stopped: "sv_phase st = Stopped e \<Longrightarrow> sv_tasks st = [] \<Longrightarrow>
    server_run events st = Some st' \<longleftrightarrow> events = [] \<and> st' = st"
  by (cases events) (auto simp: server_step_def index_def split: server_event.splits)

definition bound :: "server_state \<Rightarrow> bool" where
  "bound st \<longleftrightarrow> sv_phase st \<in> {AcquiringPermit, AcceptingConnection}"

lemma server_step_bound: "bound st \<Longrightarrow> server_step event st = Some st' \<Longrightarrow> bound st'"
  by (cases event)
    (auto simp: server_step_def bound_def remove_task_def split: if_splits sum.splits option.splits task.splits)

lemma server_run_bound: "bound st \<Longrightarrow> server_run events st = Some st' \<Longrightarrow> bound st'"
  by (induction events arbitrary: st) (auto split: bind_splits intro: server_step_bound)

lemma server_run_start:
  assumes "server_run events (server_start server) = Some st"
  obtains (waiting) "events = []" "st = server_start server"
    | (failed) e where "events = [Bind (Inl e)]" "sv_phase st = Stopped (Io e)"
    | (bound) events' where "events = Bind (Inr ()) # events'" "bound st"
proof (cases events)
  case Nil
  with assms waiting show thesis by simp
next
  case (Cons event events')
  with assms obtain st1 where step: "server_step event (server_start server) = Some st1"
    and run: "server_run events' st1 = Some st" by (auto split: bind_splits)
  from step consider e where "event = Bind (Inl e)" "sv_phase st1 = Stopped (Io e)" "sv_tasks st1 = []"
    | "event = Bind (Inr ())" "bound st1"
    by (cases event)
      (auto simp: server_step_def server_start_def index_def bound_def split: if_splits sum.splits)
  then show thesis
  proof cases
    case (1 e)
    with server_run_stopped [OF 1(2,3)] run have "events' = []" "st = st1" by simp_all
    with 1 Cons show thesis by (intro failed [of e]) simp_all
  next
    case 2
    with server_run_bound [OF 2(2) run] Cons show thesis by (intro bound [of events']) simp_all
  qed
qed

section \<open>Properties\<close>

text \<open>
  C35. The program gets to a running server exactly when the configuration file loads and satisfies
  its invariant, the certificates and the key load and rustls takes them for TLS 1.3, and
  \<open>max_connections\<close> is not above what a semaphore can hold; the server then has that
  configuration. It panics only because of \<open>max_connections\<close>; every other failure is exit code 1.
\<close>

theorem startup_exact:
  "(main cenv tenv env_filter new_filter given = Running flt server \<longleftrightarrow>
     (\<exists>content table config certs key rustls_config.
        read_to_string cenv (args_config given) = Inr content \<and> toml_parse cenv content = Some table \<and>
        config_from_table table = Some config \<and> config_ok (path_exists cenv) config \<and>
        load_certs tenv (tls_cert config) = Inr certs \<and> load_key tenv (tls_key config) = Inr key \<and>
        single_cert tenv [TLS13] certs key = Inr rustls_config \<and>
        unat (max_connections config) \<le> MAX_PERMITS \<and>
        flt = init_tracing env_filter new_filter (log_level config) \<and>
        server = \<lparr>srv_config = config,
          srv_tls_config = \<lparr>tc_acceptor = rustls_config\<lparr>alpn_protocols := [ascii ''h2'', ascii ''http/1.1''],
            ignore_client_order := True\<rparr>\<rparr>,
          connection_limit = unat (max_connections config)\<rparr>)) \<and>
   (main cenv tenv env_filter new_filter given = Panicked \<longleftrightarrow>
     (\<exists>config tls. config_from_file cenv (args_config given) = Inr config \<and>
        tls_config_new tenv (tls_cert config) (tls_key config) = Inr tls \<and>
        MAX_PERMITS < unat (max_connections config))) \<and>
   main cenv tenv env_filter new_filter given \<in>
     range (Exit 1) \<union> {Panicked} \<union> {Running flt server | flt server. True}"
proof (intro conjI)
  show "main cenv tenv env_filter new_filter given = Running flt server \<longleftrightarrow>
     (\<exists>content table config certs key rustls_config.
        read_to_string cenv (args_config given) = Inr content \<and> toml_parse cenv content = Some table \<and>
        config_from_table table = Some config \<and> config_ok (path_exists cenv) config \<and>
        load_certs tenv (tls_cert config) = Inr certs \<and> load_key tenv (tls_key config) = Inr key \<and>
        single_cert tenv [TLS13] certs key = Inr rustls_config \<and>
        unat (max_connections config) \<le> MAX_PERMITS \<and>
        flt = init_tracing env_filter new_filter (log_level config) \<and>
        server = \<lparr>srv_config = config,
          srv_tls_config = \<lparr>tc_acceptor = rustls_config\<lparr>alpn_protocols := [ascii ''h2'', ascii ''http/1.1''],
            ignore_client_order := True\<rparr>\<rparr>,
          connection_limit = unat (max_connections config)\<rparr>)"
    (is "?run \<longleftrightarrow> ?ok")
  proof -
    have "?run \<longleftrightarrow> (\<exists>config tls. config_from_file cenv (args_config given) = Inr config \<and>
        tls_config_new tenv (tls_cert config) (tls_key config) = Inr tls \<and>
        server_new config tls = Some server \<and>
        flt = init_tracing env_filter new_filter (log_level config))"
      by (auto simp: main_def split: sum.splits option.splits)
    also have "\<dots> \<longleftrightarrow> ?ok"
      unfolding config_from_file_Inr_iff tls_config_Inr_iff server_new_Some_iff by blast
    finally show ?thesis .
  qed
qed (auto simp: main_def server_new_def split: sum.splits option.splits if_splits)

text \<open>
  C36. The process ends, once the server is running, only because its address cannot be bound, with
  the first event and exit code 1; after it is bound no sequence of events ends it, whatever clients,
  handshakes and connections do.
\<close>

theorem process_ends_only_unbound:
  assumes "main_run events (Running flt server) = Some m"
  shows "(m \<noteq> Running flt server \<longleftrightarrow> (\<exists>e. events = [Bind (Inl e)])) \<and>
    (m = Running flt server \<or> (\<exists>e. m = Exit 1 (ascii ''Server error: IO error: '' @ io_message e)))"
proof -
  from assms obtain st where run: "server_run events (server_start server) = Some st"
    and m: "(case sv_phase st of Stopped e \<Rightarrow> Some (Exit 1 (ascii ''Server error: '' @ error_display e))
      | _ \<Rightarrow> Some (Running flt server)) = Some m"
    by (auto simp: main_run_def split: option.splits)
  from run show ?thesis
  proof (cases rule: server_run_start)
    case waiting
    with m show ?thesis by (simp add: server_start_def)
  next
    case (failed e)
    with m show ?thesis by (auto simp: ascii_Cons)
  next
    case (bound events')
    with m show ?thesis by (auto simp: bound_def)
  qed
qed

theorem process_ends_only_unbound_witness:
  "\<exists>server m. server_new example_config example_tls = Some server \<and>
     main_run [Bind (Inl early_eof)] (Running () server) = Some m \<and> m \<noteq> Running () server"
proof -
  let ?server = "\<lparr>srv_config = example_config, srv_tls_config = example_tls, connection_limit = 1024\<rparr>"
  have run: "main_run [Bind (Inl early_eof)] (Running () ?server) =
      Some (Exit 1 (ascii ''Server error: '' @ error_display (Io early_eof)))" (is "_ = Some ?m")
    by (simp add: main_run_def server_step_def server_start_def)
  have "server_new example_config example_tls = Some ?server"
    by (simp add: server_new_def example_config_def default_max_connections_def MAX_PERMITS_def)
  moreover from process_ends_only_unbound [OF run] have "?m \<noteq> Running () ?server" by blast
  ultimately show ?thesis using run by blast
qed

end
