(* ===== verification/ServerRuns.thy ===== *)
theory ServerRuns
  imports Servers
begin

text \<open>
  src/server.rs as a whole: the accept loop with its spawned tasks, each of which runs
  \<open>handle_connection\<close> on the stream its TLS handshake gave it. It refines the accept loop of
  \<^theory_text>\<open>Servers\<close>, in which how a connection ends is arbitrary.
\<close>

section \<open>The code\<close>

text \<open>
  A spawned task: in the handshake, with a stream, or in a handler whose header has been peeked. The
  connections share the configuration and the counter of session identifiers, which \<open>Session::new\<close>
  increments; \<open>fl_served\<close> is a history of the peeked connections.
\<close>

datatype ('s, 't, 'u) worker =
    Shaking socket_addr
  | Peeking socket_addr 's
  | Serving socket_addr 's "('s, 't, 'u) connection_end"

record ('s, 't, 'u) full_state =
  fl_phase :: accept_phase
  fl_permits :: nat
  fl_workers :: "('s, 't, 'u) worker list"
  fl_SESSION_ID :: u64
  fl_served :: "(socket_addr \<times> 's \<times> ('s, 't, 'u) connection_end) list"

definition full_start :: "'r server \<Rightarrow> ('s, 't, 'u) full_state" where
  "full_start server =
     \<lparr>fl_phase = Binding, fl_permits = connection_limit server, fl_workers = [],
       fl_SESSION_ID = SESSION_ID_init, fl_served = []\<rparr>"

text \<open>
  The events: as for the accept loop, except that a handshake gives a stream, and that a handler
  first gets past peeking (at some time, with the UDP turns it will have) and ends later, if it does.
\<close>

datatype 's full_event =
    FBind "io_error + unit"
  | FPermit
  | FAccepted "io_error + socket_addr"
  | FTls nat "io_error + 's"
  | FPeeked nat nanos nanos "timed_turn list"
  | FEnded nat

text \<open>Whether a handler returns (or panics).\<close>

fun connection_ends :: "('s, 't, 'u) connection_end \<Rightarrow> bool" where
  "connection_ends Panicked \<longleftrightarrow> True"
| "connection_ends (Unanswered r s) \<longleftrightarrow> r \<noteq> Pending"
| "connection_ends (FellBack (r, streams)) \<longleftrightarrow> r \<noteq> Pending"
| "connection_ends (ProxiedTcp session (r, streams)) \<longleftrightarrow> r \<noteq> Pending"
| "connection_ends (ProxiedUdp (r, streams)) \<longleftrightarrow> r \<noteq> Pending"

definition end_worker :: "nat \<Rightarrow> ('s, 't, 'u) full_state \<Rightarrow> ('s, 't, 'u) full_state" where
  "end_worker i st = st\<lparr>fl_permits := fl_permits st + 1,
     fl_workers := take i (fl_workers st) @ drop (Suc i) (fl_workers st)\<rparr>"

definition full_step ::
  "('s, 't, 'u) server_ops \<Rightarrow> config \<Rightarrow> 's full_event \<Rightarrow> ('s, 't, 'u) full_state \<Rightarrow>
   ('s, 't, 'u) full_state option" where
  "full_step ops config event st =
     (case event of
        FBind r \<Rightarrow>
          if fl_phase st = Binding then
            Some (st\<lparr>fl_phase := (case r of Inl e \<Rightarrow> Stopped (Io e) | Inr _ \<Rightarrow> AcquiringPermit)\<rparr>)
          else None
      | FPermit \<Rightarrow>
          if fl_phase st = AcquiringPermit \<and> 0 < fl_permits st then
            Some (st\<lparr>fl_phase := AcceptingConnection, fl_permits := fl_permits st - 1\<rparr>)
          else None
      | FAccepted r \<Rightarrow>
          if fl_phase st = AcceptingConnection then
            (case r of
               Inl e \<Rightarrow> Some (st\<lparr>fl_phase := AcquiringPermit, fl_permits := fl_permits st + 1\<rparr>)
             | Inr peer \<Rightarrow> Some (st\<lparr>fl_phase := AcquiringPermit,
                 fl_workers := fl_workers st @ [Shaking peer]\<rparr>))
          else None
      | FTls i r \<Rightarrow>
          (case index (fl_workers st) i of
             Some (Shaking peer) \<Rightarrow>
               (case r of
                  Inl e \<Rightarrow> Some (end_worker i st)
                | Inr stream \<Rightarrow> Some (st\<lparr>fl_workers := (fl_workers st)[i := Peeking peer stream]\<rparr>))
           | _ \<Rightarrow> None)
      | FPeeked i now started turns \<Rightarrow>
          (case index (fl_workers st) i of
             Some (Peeking peer stream) \<Rightarrow>
               (case handle_connection ops config peer
                  \<lparr>ce_SESSION_ID = fl_SESSION_ID st, ce_now = now, ce_udp_start = started,
                    ce_turns = turns\<rparr> stream of
                  (e, SESSION_ID) \<Rightarrow>
                    Some (st\<lparr>fl_workers := (fl_workers st)[i := Serving peer stream e],
                      fl_SESSION_ID := SESSION_ID,
                      fl_served := fl_served st @ [(peer, stream, e)]\<rparr>))
           | _ \<Rightarrow> None)
      | FEnded i \<Rightarrow>
          (case index (fl_workers st) i of
             Some (Serving peer stream e) \<Rightarrow>
               if connection_ends e then Some (end_worker i st) else None
           | _ \<Rightarrow> None))"

fun full_run ::
  "('s, 't, 'u) server_ops \<Rightarrow> config \<Rightarrow> 's full_event list \<Rightarrow> ('s, 't, 'u) full_state \<Rightarrow>
   ('s, 't, 'u) full_state option" where
  "full_run ops config [] st = Some st"
| "full_run ops config (event # events) st =
     Option.bind (full_step ops config event st) (full_run ops config events)"

inductive full_reachable ::
  "('s, 't, 'u) server_ops \<Rightarrow> 'r server \<Rightarrow> ('s, 't, 'u) full_state \<Rightarrow> bool"
  for ops :: "('s, 't, 'u) server_ops" and server :: "'r server" where
  full_start: "full_reachable ops server (full_start server)"
| full_step: "full_reachable ops server st \<Longrightarrow> full_step ops (srv_config server) event st = Some st' \<Longrightarrow>
    full_reachable ops server st'"

lemma full_run_append:
  "full_run ops config (es @ es') st = Option.bind (full_run ops config es st) (full_run ops config es')"
  by (induction es arbitrary: st) (auto split: bind_splits)

lemma full_reachable_run:
  "full_run ops (srv_config server) events st = Some st' \<Longrightarrow> full_reachable ops server st \<Longrightarrow>
   full_reachable ops server st'"
  by (induction events arbitrary: st) (auto split: bind_splits intro: full_reachable.full_step)

section \<open>Refinement of the accept loop\<close>

fun abs_worker :: "('s, 't, 'u) worker \<Rightarrow> task" where
  "abs_worker (Shaking peer) = TlsHandshake peer"
| "abs_worker (Peeking peer stream) = Handling peer"
| "abs_worker (Serving peer stream e) = Handling peer"

definition abs_state :: "('s, 't, 'u) full_state \<Rightarrow> server_state" where
  "abs_state st = \<lparr>sv_phase = fl_phase st, sv_permits = fl_permits st,
     sv_tasks = map abs_worker (fl_workers st)\<rparr>"

text \<open>Getting past peeking is not visible to the accept loop.\<close>

fun abs_event :: "'s full_event \<Rightarrow> server_event option" where
  "abs_event (FBind r) = Some (Bind r)"
| "abs_event FPermit = Some PermitAcquired"
| "abs_event (FAccepted r) = Some (Accepted r)"
| "abs_event (FTls i r) = Some (TlsAccepted i (map_sum id (\<lambda>_. ()) r))"
| "abs_event (FPeeked i now started turns) = None"
| "abs_event (FEnded i) = Some (Handled i (Inr ()))"

lemma index_map: "index (map f xs) i = map_option f (index xs i)"
  by (simp add: index_def)

lemma abs_end_worker: "abs_state (end_worker i st) = remove_task i (abs_state st)"
  by (simp add: abs_state_def end_worker_def remove_task_def take_map drop_map)

lemma abs_update: "abs_state (st\<lparr>fl_workers := (fl_workers st)[i := w]\<rparr>) =
    (abs_state st)\<lparr>sv_tasks := (sv_tasks (abs_state st))[i := abs_worker w]\<rparr>"
  by (simp add: abs_state_def map_update)

lemma full_step_refines:
  assumes "full_step ops config event st = Some st'"
  shows "case abs_event event of
      None \<Rightarrow> abs_state st' = abs_state st
    | Some e \<Rightarrow> server_step e (abs_state st) = Some (abs_state st')"
proof (cases event)
  case (FTls i r)
  with assms obtain peer where w: "index (fl_workers st) i = Some (Shaking peer)"
    by (auto simp: full_step_def split: option.splits worker.splits)
  then have "index (sv_tasks (abs_state st)) i = Some (TlsHandshake peer)"
    by (simp add: abs_state_def index_map)
  with FTls assms w show ?thesis
    by (auto simp: full_step_def server_step_def abs_end_worker abs_update split: sum.splits)
next
  case (FPeeked i now started turns)
  with assms obtain peer stream where w: "index (fl_workers st) i = Some (Peeking peer stream)"
    by (auto simp: full_step_def split: option.splits worker.splits)
  then have "(map abs_worker (fl_workers st))[i := Handling peer] = map abs_worker (fl_workers st)"
    by (auto simp: index_Some_iff list_update_same_conv)
  with FPeeked assms w show ?thesis
    by (auto simp: full_step_def abs_state_def map_update split: prod.splits)
next
  case (FEnded i)
  with assms obtain peer stream e where w: "index (fl_workers st) i = Some (Serving peer stream e)"
    by (auto simp: full_step_def split: option.splits worker.splits)
  then have "index (sv_tasks (abs_state st)) i = Some (Handling peer)"
    by (simp add: abs_state_def index_map)
  with FEnded assms w show ?thesis
    by (auto simp: full_step_def server_step_def abs_end_worker split: if_splits)
qed (use assms in \<open>auto simp: full_step_def server_step_def abs_state_def split: if_splits sum.splits\<close>)

lemma abs_full_start: "abs_state (full_start server) = server_start server"
  by (simp add: abs_state_def full_start_def server_start_def)

lemma full_reachable_abs: "full_reachable ops server st \<Longrightarrow> reachable server (abs_state st)"
proof (induction rule: full_reachable.induct)
  case full_start
  show ?case by (simp add: abs_full_start reachable.start)
next
  case (full_step st event st')
  from full_step_refines [OF full_step.hyps(2)] full_step.IH show ?case
    by (cases "abs_event event") (auto intro: reachable.step)
qed

section \<open>What was served\<close>

lemma full_step_served:
  assumes "full_step ops config event st = Some st'"
  shows "fl_served st' = fl_served st \<and> fl_SESSION_ID st' = fl_SESSION_ID st \<or>
    (\<exists>peer stream e env. fl_served st' = fl_served st @ [(peer, stream, e)] \<and>
       ce_SESSION_ID env = fl_SESSION_ID st \<and>
       handle_connection ops config peer env stream = (e, fl_SESSION_ID st'))"
  using assms
  by (cases event)
    (fastforce simp: full_step_def end_worker_def Let_def
      split: if_splits sum.splits option.splits worker.splits prod.splits)+

lemma served_handled:
  "full_reachable ops server st \<Longrightarrow> (peer, s, e) \<in> set (fl_served st) \<Longrightarrow>
   \<exists>env. e = fst (handle_connection ops (srv_config server) peer env s)"
proof (induction rule: full_reachable.induct)
  case full_start
  then show ?case by (simp add: full_start_def)
next
  case (full_step st event st')
  from full_step_served [OF full_step.hyps(2)] full_step.IH full_step.prems show ?case
    by auto (metis fst_conv)+
qed

section \<open>Session identifiers\<close>

lemma handle_tcp_id: "handle_tcp ops c tgt session d = (session', streams) \<Longrightarrow> s_id session' = s_id session"
  by (auto simp: handle_tcp_def split: timed.splits sum.splits prod.splits poll.splits)

lemma udp_handle_event_id:
  "udp_handle_event ops event st = (r, st') \<Longrightarrow> s_id (us_session st') = s_id (us_session st)"
  by (auto simp: udp_handle_event_def Let_def
      split: timed.splits udp_event.splits sum.splits option.splits prod.splits poll.splits)

lemma udp_select_id:
  "udp_select ops elapsed turn st = (e, st') \<Longrightarrow> us_session st' = us_session st"
  by (auto simp: udp_select_def split: udp_turn.splits prod.splits poll.splits if_splits)

lemma udp_loop_id:
  "udp_loop ops arrive d started turns st = (w, r, st') \<Longrightarrow> s_id (us_session st') = s_id (us_session st)"
proof (induction turns arbitrary: started st)
  case (Cons x turns)
  obtain t u turn where x: "x = (t, u, turn)" by (cases x)
  show ?case
  proof (cases "polls turn")
    case True
    obtain e st1 where sel: "udp_select ops (started + d \<le> t) turn st = (e, st1)" by fastforce
    note loop = Cons.prems [unfolded x udp_loop_polls [OF True]]
    show ?thesis
    proof (cases e)
      case None
      with loop sel Cons.IH [of started st1] udp_select_id [OF sel] show ?thesis by simp
    next
      case (Some ev)
      obtain f st2 where h: "udp_handle_event ops ev st1 = (f, st2)" by fastforce
      with loop sel Some have "udp_loop ops arrive d u turns st2 = (w, r, st') \<or> st' = st2"
        by (auto split: poll.splits udp_flow.splits)
      with Cons.IH [of u st2] udp_handle_event_id [OF h] udp_select_id [OF sel] show ?thesis by auto
    qed
  next
    case False
    with Cons show ?thesis by (cases turn) (auto simp: x udp_arrive_def dest: Cons.IH)
  qed
qed simp

lemma handle_udp_id:
  "handle_udp ops arrive c session d addr started turns = (r, c', u, session') \<Longrightarrow> s_id session' = s_id session"
  by (auto simp: handle_udp_def split: poll.splits sum.splits prod.splits dest: udp_loop_id)

text \<open>
  A connection that is proxied has taken the identifier the counter stood at, and has incremented it; any
  other leaves it.
\<close>

lemma dispatch_session:
  assumes "dispatch ops config peer env h p = (e, SESSION_ID)"
  shows "e \<noteq> Panicked \<and> SESSION_ID = ce_SESSION_ID env + 1 \<and>
    (\<exists>session. proxied_session e = Some session \<and> s_id session = ce_SESSION_ID env)"
proof (cases "h_command h")
  case Connect
  with assms show ?thesis
    by (auto simp: dispatch_def session_new_def split: prod.splits dest: handle_tcp_id)
next
  case UdpAssociate
  obtain r c u session where "handle_udp (sv_udp ops) (sv_arrive ops) p
      (fst (session_new (ce_SESSION_ID env) (ce_now env) peer (h_address h) UdpAssociate))
      (from_secs (udp_timeout config)) (udp_bind_addr config) (ce_udp_start env) (ce_turns env) =
      (r, c, u, session)" by (metis prod_cases4)
  with UdpAssociate assms show ?thesis
    by (auto simp: dispatch_def session_new_def dest: handle_udp_id)
qed

lemma dispatch_proxied:
  "fst (dispatch ops config peer env h p) \<noteq> Panicked \<and>
   proxied_session (fst (dispatch ops config peer env h p)) \<noteq> None"
  using dispatch_session [of ops config peer env h p] by (metis option.distinct(1) prod.collapse)

lemma connection_session:
  assumes "handle_connection ops config peer env s = (e, SESSION_ID)"
  shows "case proxied_session e of
      None \<Rightarrow> SESSION_ID = ce_SESSION_ID env
    | Some session \<Rightarrow> s_id session = ce_SESSION_ID env \<and> SESSION_ID = ce_SESSION_ID env + 1"
  using assms
  by (auto simp: handle_connection_def dest!: dispatch_session
      split: prod.splits option.splits peek_end.splits)

definition sessions :: "('s, 't, 'u) full_state \<Rightarrow> session list" where
  "sessions st = List.map_filter (\<lambda>(peer, s, e). proxied_session e) (fl_served st)"

lemma full_sessions:
  "full_reachable ops server st \<Longrightarrow>
   map s_id (sessions st) = map (\<lambda>i. SESSION_ID_init + of_nat i) [0..<length (sessions st)] \<and>
   fl_SESSION_ID st = SESSION_ID_init + of_nat (length (sessions st))"
proof (induction rule: full_reachable.induct)
  case full_start
  show ?case by (simp add: sessions_def full_start_def map_filter_def)
next
  case (full_step st event st')
  from full_step_served [OF full_step.hyps(2)] show ?case
  proof (elim disjE exE conjE)
    assume "fl_served st' = fl_served st" "fl_SESSION_ID st' = fl_SESSION_ID st"
    with full_step.IH show ?thesis by (simp add: sessions_def)
  next
    fix peer stream e env
    assume served: "fl_served st' = fl_served st @ [(peer, stream, e)]"
      and env: "ce_SESSION_ID env = fl_SESSION_ID st"
      and run: "handle_connection ops (srv_config server) peer env stream = (e, fl_SESSION_ID st')"
    from connection_session [OF run] env served full_step.IH show ?thesis
      by (cases "proxied_session e") (simp_all add: sessions_def map_filter_def)
  qed
qed

section \<open>Clients that send nothing\<close>

lemma idle_connection:
  assumes "read_law vw (rd_read (sv_reader ops))" and "vw s = ([], Open)"
  obtains s' where "handle_connection ops config peer env s = (Unanswered Pending s', ce_SESSION_ID env)"
proof -
  have "client_verdict (passwords config) (vw s) = Undecided"
    by (simp add: assms(2) client_verdict_def try_parse_short)
  with handle_connection_verdict [OF assms(1), of config peer env s] that show thesis
    by (auto simp: follows_verdict_def)
qed

definition stuck_worker :: "('s, 't, 'u) worker \<Rightarrow> bool" where
  "stuck_worker w \<longleftrightarrow> (\<exists>peer s s'. w = Serving peer s (Unanswered Pending s'))"

lemma idle_run:
  assumes "read_law vw (rd_read (sv_reader ops))" and "vw s = ([], Open)" and "n \<le> connection_limit server"
  shows "\<exists>events st. full_run ops config (FBind (Inr ()) # events) (full_start server) = Some st \<and>
    fl_phase st = AcquiringPermit \<and> fl_permits st = connection_limit server - n \<and>
    length (fl_workers st) = n \<and> list_all stuck_worker (fl_workers st)"
  using assms(3)
proof (induction n)
  case 0
  show ?case by (intro exI [of _ "[]"]) (simp add: full_step_def full_start_def)
next
  case (Suc n)
  then obtain events st where st: "full_run ops config (FBind (Inr ()) # events) (full_start server) = Some st"
    "fl_phase st = AcquiringPermit" "fl_permits st = connection_limit server - n"
    "length (fl_workers st) = n" "list_all stuck_worker (fl_workers st)" by auto
  obtain peer :: socket_addr where True by blast
  obtain s' where idle: "handle_connection ops config peer
      \<lparr>ce_SESSION_ID = fl_SESSION_ID st, ce_now = 0, ce_udp_start = 0, ce_turns = []\<rparr> s =
      (Unanswered Pending s', fl_SESSION_ID st)"
    using idle_connection [OF assms(1,2)] by (metis connection_env.select_convs(1))
  let ?events = "[FPermit, FAccepted (Inr peer), FTls n (Inr s), FPeeked n 0 0 []]"
  have "\<exists>st'. full_run ops config ?events st = Some st' \<and> fl_phase st' = AcquiringPermit \<and>
      fl_permits st' = connection_limit server - Suc n \<and>
      fl_workers st' = fl_workers st @ [Serving peer s (Unanswered Pending s')]"
    using st Suc.prems idle by (simp add: full_step_def index_def Let_def nth_append list_update_append)
  then obtain st' where "full_run ops config ?events st = Some st'" "fl_phase st' = AcquiringPermit"
    "fl_permits st' = connection_limit server - Suc n"
    "fl_workers st' = fl_workers st @ [Serving peer s (Unanswered Pending s')]" by blast
  moreover have "stuck_worker (Serving peer s (Unanswered Pending s'))"
    by (simp add: stuck_worker_def)
  ultimately show ?case
    using st by (intro exI [of _ "events @ ?events"] exI [of _ st'])
      (auto simp: full_run_append split: bind_splits)
qed

lemma stuck_step:
  assumes "list_all stuck_worker (fl_workers st)" and "fl_phase st = AcquiringPermit" and "fl_permits st = 0"
  shows "full_step ops config event st = None"
proof -
  have "stuck_worker w" if "index (fl_workers st) i = Some w" for i w
    using assms(1) that by (auto simp: index_Some_iff list_all_length)
  then show ?thesis
    using assms(2,3) by (cases event) (fastforce simp: full_step_def stuck_worker_def split: option.splits worker.splits)+
qed

section \<open>Properties\<close>

text \<open>
  C8. The server with its connection handlers refines the accept loop: every reachable state is one
  the accept loop can reach, and every step is a step of it or invisible to it. What is proved of
  the loop, such as the limit on connections, thus holds of the whole server.
\<close>

theorem server_refines_accept_loop:
  assumes "full_reachable ops server st" and "full_step ops (srv_config server) event st = Some st'"
  shows "reachable server (abs_state st) \<and> length (fl_workers st) \<le> connection_limit server \<and>
    (case abs_event event of
       None \<Rightarrow> abs_state st' = abs_state st
     | Some e \<Rightarrow> server_step e (abs_state st) = Some (abs_state st'))"
proof -
  have "reachable server (abs_state st)" using assms(1) by (rule full_reachable_abs)
  moreover from reachable_permits [OF this] have "length (fl_workers st) \<le> connection_limit server"
    by (simp add: permits_held_def abs_state_def)
  ultimately show ?thesis using full_step_refines [OF assms(2)] by blast
qed

text \<open>
  C2. Security of the whole server, over all interleavings of its connections: every client whose
  header has been peeked gets what its byte stream deserves. One with a well-formed header and a
  configured password is proxied; every other rejected one talks to the fallback alone, which
  receives its stream from the first byte; the rest is proxied nowhere; and no handler panics.
\<close>

theorem server_serves_by_verdict:
  assumes laws: "server_laws ops vw sentc vwt sentt log eof"
    and "full_reachable ops server st" and "(peer, s, e) \<in> set (fl_served st)"
  shows "e \<noteq> Panicked \<and>
    (case client_verdict (passwords (srv_config server)) (vw s) of
       Accept h \<Rightarrow> proxied_session e \<noteq> None \<and> (\<exists>w rest. wire_header h w \<and> fst (vw s) = w @ rest) \<and>
         verify_password h (passwords (srv_config server))
     | Reject \<Rightarrow> (\<exists>r c' t'. e = FellBack (r, c', t') \<and>
         (case t' of
            None \<Rightarrow> sentc c' = sentc s
          | Some b \<Rightarrow> Sublist.prefix (sentt b) (fst (vw s))))
     | _ \<Rightarrow> proxied_session e = None)"
proof -
  have streams: "server_streams ops vw sentc vwt sentt log eof"
    using laws by (rule server_streams.intro)
  obtain env where e: "e = fst (handle_connection ops (srv_config server) peer env s)"
    using served_handled [OF assms(2,3)] by blast
  have follows: "follows_verdict ops (srv_config server) peer env vw s
      (handle_connection ops (srv_config server) peer env s)"
    using server_streams.client_laws(1) [OF streams] by (rule handle_connection_verdict)
  show ?thesis
  proof (cases "client_verdict (passwords (srv_config server)) (vw s)")
    case (Accept h)
    then have "client_verdict (passwords (srv_config server)) (fst (vw s), snd (vw s)) = Accept h" by simp
    then have "verify_password h (passwords (srv_config server))" unfolding verdict_Accept_iff by blast
    with follows Accept dispatch_proxied [of ops "srv_config server" peer env h] show ?thesis
      by (auto simp: follows_verdict_def e)
  next
    case Reject
    from server_streams.rejected [OF streams this, of peer env] e obtain r c' t' where
      "e = FellBack (r, c', t')"
      "case t' of None \<Rightarrow> sentc c' = sentc s | Some b \<Rightarrow> Sublist.prefix (sentt b) (fst (vw s))"
      by (fastforce split: option.splits)
    with Reject show ?thesis by auto
  qed (use follows in \<open>auto simp: follows_verdict_def e\<close>)
qed

text \<open>
  C39. Session identifiers are unique over the life of the server, however its connections interleave:
  they are counted from one in the order in which connections are dispatched, up to the wrap-around
  of the counter, and proxying never changes them.
\<close>

theorem server_session_ids:
  assumes "full_reachable ops server st" and "length (sessions st) \<le> 2 ^ 64"
  shows "map s_id (sessions st) = map (\<lambda>i. 1 + of_nat i) [0..<length (sessions st)] \<and>
    distinct (map s_id (sessions st))"
  using full_sessions [OF assms(1)] counted_ids_distinct [OF assms(2)]
  by (simp add: SESSION_ID_init_def)

text \<open>
  C38. Nothing bounds the time a client may take: as many clients as the server has permits, that
  connect, complete the handshake and send nothing, bring it to a state from which no event at all
  is possible; it never accepts another connection.
\<close>

theorem idle_clients_block_server:
  assumes "read_law vw (rd_read (sv_reader ops))" and "vw s = ([], Open)"
  shows "\<exists>events st. full_run ops (srv_config server) events (full_start server) = Some st \<and>
    length (fl_workers st) = connection_limit server \<and>
    (\<forall>event. full_step ops (srv_config server) event st = None)"
proof -
  from idle_run [OF assms order.refl, of "srv_config server" server] obtain events st where
    "full_run ops (srv_config server) (FBind (Inr ()) # events) (full_start server) = Some st"
    "fl_phase st = AcquiringPermit" "fl_permits st = 0" "length (fl_workers st) = connection_limit server"
    "list_all stuck_worker (fl_workers st)" by auto
  with stuck_step [of st ops "srv_config server"] show ?thesis by blast
qed

section \<open>A server with one client\<close>

definition demo_server :: "unit server" where
  "demo_server = \<lparr>srv_config = example_config, srv_tls_config = example_tls, connection_limit = 1024\<rparr>"

definition demo_ops :: "(duplex, duplex, udp_net) server_ops" where
  "demo_ops = mem_server_ops demo_net (\<lambda>_ _. [])"

definition demo_end :: "(duplex, duplex, udp_net) connection_end" where
  "demo_end = fst (handle_connection demo_ops example_config (V4 (Ipv4Addr 1 2 3 4) 9)
     \<lparr>ce_SESSION_ID = 1, ce_now = 0, ce_udp_start = 0, ce_turns = []\<rparr> (demo_client Connect [7, 8] Closed))"

lemma demo_server_run:
  obtains st where "full_reachable demo_ops demo_server st"
    "fl_served st = [(V4 (Ipv4Addr 1 2 3 4) 9, demo_client Connect [7, 8] Closed, demo_end)]"
proof -
  have "\<exists>st. full_run demo_ops (srv_config demo_server) [FBind (Inr ()), FPermit,
      FAccepted (Inr (V4 (Ipv4Addr 1 2 3 4) 9)), FTls 0 (Inr (demo_client Connect [7, 8] Closed)),
      FPeeked 0 0 0 []] (full_start demo_server) = Some st \<and>
    fl_served st = [(V4 (Ipv4Addr 1 2 3 4) 9, demo_client Connect [7, 8] Closed, demo_end)]"
    by (simp add: full_step_def full_start_def demo_server_def index_def Let_def demo_end_def
        SESSION_ID_init_def split: prod.splits)
  then show thesis using that full_reachable_run full_reachable.full_start by blast
qed

theorem server_serves_by_verdict_witness:
  "demo_end \<noteq> Panicked \<and> proxied_session demo_end \<noteq> None"
proof -
  obtain st where run: "full_reachable demo_ops demo_server st"
    "fl_served st = [(V4 (Ipv4Addr 1 2 3 4) 9, demo_client Connect [7, 8] Closed, demo_end)]"
    by (rule demo_server_run)
  have "server_laws demo_ops d_in d_sent d_in d_sent n_log early_eof"
    unfolding demo_ops_def by (rule server_laws_mem)
  moreover have "client_verdict (passwords (srv_config demo_server)) (d_in (demo_client Connect [7, 8] Closed)) =
      Accept (demo_header Connect)"
    unfolding demo_client_view verdict_Accept_iff
    using demo_wire_ok [of Connect] demo_verified [of Connect] by (auto simp: demo_server_def)
  ultimately show ?thesis
    using server_serves_by_verdict [OF _ run(1), of d_in d_sent d_in d_sent n_log early_eof
        "V4 (Ipv4Addr 1 2 3 4) 9" "demo_client Connect [7, 8] Closed" demo_end] run(2)
    by simp
qed

lemma demo_end_proxied: "proxied_session demo_end \<noteq> None"
proof -
  let ?s = "demo_client Connect [7, 8] Closed"
  have "fst (d_in ?s) = demo_wire Connect @ [7, 8]" by (simp add: demo_client_view)
  then obtain p where "demo_end = fst (dispatch demo_ops example_config (V4 (Ipv4Addr 1 2 3 4) 9)
      \<lparr>ce_SESSION_ID = 1, ce_now = 0, ce_udp_start = 0, ce_turns = []\<rparr> (demo_header Connect) p)"
    unfolding demo_end_def demo_ops_def using mem_server.accepted [OF demo_wire_ok _ demo_verified] by metis
  then show ?thesis by (metis dispatch_proxied)
qed

theorem server_session_ids_witness:
  "\<exists>st. full_reachable demo_ops demo_server st \<and> length (sessions st) = 1 \<and> map s_id (sessions st) = [1]"
proof -
  obtain st where run: "full_reachable demo_ops demo_server st"
    "fl_served st = [(V4 (Ipv4Addr 1 2 3 4) 9, demo_client Connect [7, 8] Closed, demo_end)]"
    by (rule demo_server_run)
  then have "length (sessions st) = 1"
    using demo_end_proxied by (auto simp: sessions_def map_filter_def)
  with server_session_ids [OF run(1)] run(1) show ?thesis by auto
qed

theorem server_refines_accept_loop_witness:
  "reachable demo_server (abs_state (full_start demo_server :: (duplex, duplex, udp_net) full_state)) \<and>
   server_step (Bind (Inr ())) (server_start demo_server) =
     Some \<lparr>sv_phase = AcquiringPermit, sv_permits = 1024, sv_tasks = []\<rparr>"
proof -
  let ?st = "\<lparr>fl_phase = AcquiringPermit, fl_permits = 1024, fl_workers = [], fl_SESSION_ID = 1,
    fl_served = []\<rparr> :: (duplex, duplex, udp_net) full_state"
  have "full_step demo_ops (srv_config demo_server) (FBind (Inr ())) (full_start demo_server) = Some ?st"
    by (simp add: full_step_def full_start_def demo_server_def SESSION_ID_init_def)
  from server_refines_accept_loop [OF full_reachable.full_start this] show ?thesis
    by (simp add: abs_full_start) (simp add: abs_state_def)
qed

theorem idle_clients_block_server_witness:
  "\<exists>events st. full_run demo_ops example_config events (full_start demo_server) = Some st \<and>
    length (fl_workers st) = 1024 \<and> (\<forall>event. full_step demo_ops example_config event st = None)"
proof -
  have "read_law d_in (rd_read (sv_reader demo_ops))"
    unfolding demo_ops_def by (rule mem_server.client_laws)
  from idle_clients_block_server [OF this, of "\<lparr>d_in = ([], Open), d_sent = []\<rparr>" demo_server]
  show ?thesis by (simp add: demo_server_def)
qed

end
