(* ===== verification/Splices.thy ===== *)
theory Splices
  imports Udp
begin

text \<open>
  src/reality/splice.rs: \<open>DirectSplice\<close>, a relay written as a \<open>select!\<close> loop over the two directions,
  \<open>UnwrapStream\<close>, and \<open>tcp_splice\<close>, a relay by two spawned copies.
\<close>

section \<open>DirectSplice\<close>

text \<open>The operations of a full-duplex stream.\<close>

record 's duplex_io =
  dx_read :: "nat \<Rightarrow> ('s, io_error, bytes) io"
  dx_write_all :: "bytes \<Rightarrow> ('s, io_error, unit) io"
  dx_flush :: "('s, io_error, unit) io"

record ('r, 'w) direct_splice =
  ds_reader :: 'r
  ds_writer :: 'w
  ds_bytes_transferred :: u64

definition direct_splice_new :: "'r \<Rightarrow> 'w \<Rightarrow> ('r, 'w) direct_splice" where
  "direct_splice_new r w = \<lparr>ds_reader = r, ds_writer = w, ds_bytes_transferred = 0\<rparr>"

definition BUFFER_SIZE :: nat where "BUFFER_SIZE = 65536"

text \<open>
  One branch of the \<open>select!\<close>, which the two directions share: reading \<open>a\<close> and writing to \<open>b\<close>.
  \<^const>\<open>None\<close>: nothing can be read yet and the branch is not taken.
\<close>

datatype splice_flow = Transferred u64 | SpliceBreak | SpliceReturn trojan_error | SpliceStuck

definition splice_branch ::
  "'a duplex_io \<Rightarrow> 'b duplex_io \<Rightarrow> 'a \<Rightarrow> 'b \<Rightarrow> (splice_flow \<times> 'a \<times> 'b) option" where
  "splice_branch A B a b =
     (case dx_read A BUFFER_SIZE a of
        (Pending, _) \<Rightarrow> None
      | (Ready (Inr buf), a) \<Rightarrow>
          if buf = [] then Some (SpliceBreak, a, b)
          else
            (case await (io_try (dx_write_all B buf)) (\<lambda>_. io_try (dx_flush B)) b of
               (Ready (Inr _), b) \<Rightarrow> Some (Transferred (of_nat (length buf)), a, b)
             | (Ready (Inl e), b) \<Rightarrow> Some (SpliceReturn e, a, b)
             | (Pending, b) \<Rightarrow> Some (SpliceStuck, a, b))
      | (Ready (Inl e), a) \<Rightarrow>
          if io_kind e = WouldBlock then Some (Transferred 0, a, b) else Some (SpliceBreak, a, b))"

text \<open>
  The loop, over the branches in the order in which \<open>select!\<close> finds them ready; when the schedule
  ends it is still waiting.
\<close>

datatype side = FromReader | FromWriter

fun splice ::
  "'r duplex_io \<Rightarrow> 'w duplex_io \<Rightarrow> side list \<Rightarrow> ('r, 'w) direct_splice \<Rightarrow>
   (trojan_error + u64) poll \<times> ('r, 'w) direct_splice" where
  "splice R W [] st = (Pending, st)"
| "splice R W (side # sides) st =
     (case (case side of
          FromReader \<Rightarrow> splice_branch R W (ds_reader st) (ds_writer st)
        | FromWriter \<Rightarrow> map_option (\<lambda>(f, w, r). (f, r, w))
            (splice_branch W R (ds_writer st) (ds_reader st))) of
        None \<Rightarrow> splice R W sides st
      | Some (flow, r, w) \<Rightarrow>
          (let st = st\<lparr>ds_reader := r, ds_writer := w\<rparr> in
           case flow of
             Transferred n \<Rightarrow>
               splice R W sides (st\<lparr>ds_bytes_transferred := ds_bytes_transferred st + n\<rparr>)
           | SpliceBreak \<Rightarrow> (Ready (Inr (ds_bytes_transferred st)), st)
           | SpliceReturn e \<Rightarrow> (Ready (Inl e), st)
           | SpliceStuck \<Rightarrow> (Pending, st)))"

section \<open>UnwrapStream\<close>

record 's unwrap_stream =
  uw_inner :: 's
  uw_decrypted :: bool

definition unwrap_new :: "'s \<Rightarrow> 's unwrap_stream" where
  "unwrap_new s = \<lparr>uw_inner = s, uw_decrypted = False\<rparr>"

definition into_inner :: "'s unwrap_stream \<Rightarrow> 's" where "into_inner u = uw_inner u"

definition is_decrypted :: "'s unwrap_stream \<Rightarrow> bool" where "is_decrypted u = uw_decrypted u"

definition mark_decrypted :: "'s unwrap_stream \<Rightarrow> 's unwrap_stream" where
  "mark_decrypted u = u\<lparr>uw_decrypted := True\<rparr>"

text \<open>\<open>poll_read\<close>, \<open>poll_write\<close>, \<open>poll_flush\<close> and \<open>poll_shutdown\<close> all go to the inner stream.\<close>

definition unwrap_poll :: "('s, 'e, 'a) io \<Rightarrow> ('s unwrap_stream, 'e, 'a) io" where
  "unwrap_poll m = (\<lambda>u. case m (uw_inner u) of (r, s) \<Rightarrow> (r, u\<lparr>uw_inner := s\<rparr>))"

section \<open>tcp\_splice\<close>

text \<open>
  \<open>tokio::io::split\<close> gives the two halves of a stream, which \<open>BufReader\<close> and \<open>BufWriter\<close> wrap; a half is
  named by the stream it belongs to.
\<close>

datatype peer = StreamA | StreamB

datatype read_half = ReadHalf peer
datatype write_half = WriteHalf peer
datatype buf_reader = BufReader read_half
datatype buf_writer = BufWriter write_half

definition io_split :: "peer \<Rightarrow> read_half \<times> write_half" where
  "io_split p = (ReadHalf p, WriteHalf p)"

text \<open>
  The future of \<open>tokio::io::copy\<close>, and one poll of it over the two streams; the message of a
  \<open>JoinError\<close>.
\<close>

record ('a, 'b, 't, 'j) splice_ops =
  copy_start :: 't
  copy_poll :: "buf_reader \<Rightarrow> buf_writer \<Rightarrow> 't \<Rightarrow> 'a \<times> 'b \<Rightarrow> (io_error + u64) poll \<times> 't \<times> 'a \<times> 'b"
  join_message :: "'j \<Rightarrow> rstring"

text \<open>A spawned task that copies: it runs until its future is ready, or it panics (a \<open>JoinError\<close>).\<close>

datatype ('t, 'j) copy_state = Running 't | Finished "'j + (io_error + u64)"

datatype ('t, 'j) copy_task = CopyTask buf_reader buf_writer "('t, 'j) copy_state"

definition spawn_copy :: "('a, 'b, 't, 'j) splice_ops \<Rightarrow> buf_reader \<Rightarrow> buf_writer \<Rightarrow> ('t, 'j) copy_task" where
  "spawn_copy ops r w = CopyTask r w (Running (copy_start ops))"

text \<open>What the executor does next: it polls one of the two tasks, or that task panics.\<close>

datatype task_name = AToB | BToA

datatype 'j splice_turn = PollTask task_name | PanicTask task_name 'j

fun task_turn ::
  "('a, 'b, 't, 'j) splice_ops \<Rightarrow> task_name \<Rightarrow> 'j splice_turn \<Rightarrow> ('t, 'j) copy_task \<Rightarrow> 'a \<times> 'b \<Rightarrow>
   ('t, 'j) copy_task \<times> 'a \<times> 'b" where
  "task_turn ops name turn (CopyTask r w (Finished x)) s = (CopyTask r w (Finished x), s)"
| "task_turn ops name (PollTask n) (CopyTask r w (Running t)) s =
     (if n = name then
        (case copy_poll ops r w t s of
           (Ready x, t, s) \<Rightarrow> (CopyTask r w (Finished (Inr x)), s)
         | (Pending, t, s) \<Rightarrow> (CopyTask r w (Running t), s))
      else (CopyTask r w (Running t), s))"
| "task_turn ops name (PanicTask n j) (CopyTask r w (Running t)) s =
     (CopyTask r w (if n = name then Finished (Inl j) else Running t), s)"

fun join_handle :: "('t, 'j) copy_task \<Rightarrow> ('j + (io_error + u64)) poll" where
  "join_handle (CopyTask r w (Running t)) = Pending"
| "join_handle (CopyTask r w (Finished x)) = Ready x"

text \<open>\<open>try_join!\<close> ends with the first error, or when both have ended.\<close>

fun try_join :: "('e + 'x) poll \<Rightarrow> ('e + 'y) poll \<Rightarrow> ('e + 'x \<times> 'y) poll" where
  "try_join (Ready (Inl e)) _ = Ready (Inl e)"
| "try_join _ (Ready (Inl e)) = Ready (Inl e)"
| "try_join (Ready (Inr x)) (Ready (Inr y)) = Ready (Inr (x, y))"
| "try_join _ _ = Pending"

text \<open>
  The two tasks until they are joined; when the turns run out they are not yet. (A task that is still
  running when the other has panicked goes on by itself, after \<open>tcp_splice\<close> has returned.)
\<close>

fun join_tasks ::
  "('a, 'b, 't, 'j) splice_ops \<Rightarrow> 'j splice_turn list \<Rightarrow> ('t, 'j) copy_task \<Rightarrow> ('t, 'j) copy_task \<Rightarrow>
   'a \<times> 'b \<Rightarrow> ('j + (io_error + u64) \<times> (io_error + u64)) poll \<times> 'a \<times> 'b" where
  "join_tasks ops [] a_to_b b_to_a s = (try_join (join_handle a_to_b) (join_handle b_to_a), s)"
| "join_tasks ops (turn # turns) a_to_b b_to_a s =
     (case try_join (join_handle a_to_b) (join_handle b_to_a) of
        Ready x \<Rightarrow> (Ready x, s)
      | Pending \<Rightarrow>
          (case task_turn ops AToB turn a_to_b s of
             (a_to_b, s) \<Rightarrow>
               (case task_turn ops BToA turn b_to_a s of
                  (b_to_a, s) \<Rightarrow> join_tasks ops turns a_to_b b_to_a s)))"

definition tcp_splice ::
  "('a, 'b, 't, 'j) splice_ops \<Rightarrow> 'j splice_turn list \<Rightarrow> 'a \<Rightarrow> 'b \<Rightarrow>
   (trojan_error + u64) poll \<times> 'a \<times> 'b" where
  "tcp_splice ops turns stream_a stream_b =
     (case (io_split StreamA, io_split StreamB) of
        ((a_read, a_write), (b_read, b_write)) \<Rightarrow>
          (let a_to_b = spawn_copy ops (BufReader a_read) (BufWriter b_write);
               b_to_a = spawn_copy ops (BufReader b_read) (BufWriter a_write)
           in case join_tasks ops turns a_to_b b_to_a (stream_a, stream_b) of
                (Pending, a, b) \<Rightarrow> (Pending, a, b)
              | (Ready joined, a, b) \<Rightarrow>
                  (Ready (bind_res (from_join (join_message ops) joined) (\<lambda>(tx_bytes, rx_bytes).
                     bind_res (from_io tx_bytes) (\<lambda>tx. bind_res (from_io rx_bytes) (\<lambda>rx. Inr (tx + rx))))),
                   a, b)))"

section \<open>What is copied\<close>

definition duplex_laws :: "'s duplex_io \<Rightarrow> ('s \<Rightarrow> view) \<Rightarrow> ('s \<Rightarrow> bytes) \<Rightarrow> bool" where
  "duplex_laws D vw sent \<longleftrightarrow>
     read_law vw (dx_read D) \<and> (\<forall>n. keeps sent (dx_read D n)) \<and>
     write_law vw sent (dx_write_all D) \<and> keeps vw (dx_flush D) \<and> keeps sent (dx_flush D)"

text \<open>
  One branch passes on some bytes: all it read when it goes on, possibly fewer when it fails.
\<close>

locale splice_pair =
  fixes A :: "'a duplex_io" and vwa :: "'a \<Rightarrow> view" and senta :: "'a \<Rightarrow> bytes"
    and B :: "'b duplex_io" and vwb :: "'b \<Rightarrow> view" and sentb :: "'b \<Rightarrow> bytes"
  assumes laws: "duplex_laws A vwa senta" "duplex_laws B vwb sentb"
begin

lemma branch:
  assumes "splice_branch A B a b = Some (flow, a', b')"
  obtains k n where "k \<le> n" "vwa a' = (drop n (fst (vwa a)), snd (vwa a))" "senta a' = senta a"
    "vwb b' = vwb b" "sentb b' = sentb b @ take k (fst (vwa a))"
    "\<And>m. flow = Transferred m \<Longrightarrow> k = n \<and> n \<le> length (fst (vwa a)) \<and> m = of_nat n"
    "flow = SpliceBreak \<Longrightarrow> k = 0"
proof -
  obtain r a1 where rd: "dx_read A BUFFER_SIZE a = (r, a1)" by fastforce
  have "keeps senta (dx_read A BUFFER_SIZE)" using laws(1) by (simp add: duplex_laws_def)
  then have sent_a: "senta a1 = senta a" using rd by (rule keeps_apply)
  have law: "read_law vwa (dx_read A)" using laws(1) by (simp add: duplex_laws_def)
  have size: "0 < BUFFER_SIZE" by (simp add: BUFFER_SIZE_def)
  obtain bs fin where v: "vwa a = (bs, fin)" by fastforce
  note read = law [unfolded read_law_def, rule_format, OF size v]
  show thesis
  proof (cases "bs = []")
    case True
    with read rd have "vwa a1 = ([], fin)" and
      "r = (case fin of Closed \<Rightarrow> Ready (Inr []) | Broken e \<Rightarrow> Ready (Inl e) | Open \<Rightarrow> Pending)"
      by auto
    with assms rd sent_a v True show thesis
      by (intro that [of 0 0]) (auto simp: splice_branch_def split: stream_end.splits if_splits)
  next
    case False
    with read rd obtain k where k: "0 < k" "k \<le> length bs" "r = Ready (Inr (take k bs))"
      "vwa a1 = (drop k bs, fin)" by auto
    let ?buf = "take k bs"
    have buf: "?buf \<noteq> []" using k(1) False by simp
    obtain q b1 where wr: "dx_write_all B ?buf b = (q, b1)" by fastforce
    have "write_law vwb sentb (dx_write_all B)" using laws(2) by (simp add: duplex_laws_def)
    with wr obtain j where j: "vwb b1 = vwb b" "j \<le> length ?buf" "sentb b1 = sentb b @ take j ?buf"
      "succeeded q \<longrightarrow> j = length ?buf" unfolding write_law_def by meson
    obtain f b2 where fl: "dx_flush B b1 = (f, b2)" by fastforce
    have "keeps vwb (dx_flush B)" "keeps sentb (dx_flush B)" using laws(2) by (simp_all add: duplex_laws_def)
    then have b2: "vwb b2 = vwb b1" "sentb b2 = sentb b1" using fl by (blast intro: keeps_apply)+
    have jk: "j \<le> k" "take j ?buf = take j bs" using j(2) k(2) by simp_all
    obtain w b3 where w: "await (io_try (dx_write_all B ?buf)) (\<lambda>_. io_try (dx_flush B)) b = (w, b3)"
      by fastforce
    have written: "b3 = b1 \<and> \<not> succeeded w \<or> b3 = b2 \<and> succeeded q"
    proof (cases q rule: succeeded.cases)
      case (1 x)
      then have "io_try (dx_write_all B ?buf) b = (Ready (Inr x), b1)" using wr by (simp add: io_try_simps)
      with w fl 1 show ?thesis by (auto simp: await_Ready_Inr io_try_def split: poll.splits)
    next
      case (2 e)
      then have "io_try (dx_write_all B ?buf) b = (Ready (Inl (Io e)), b1)" using wr by (simp add: io_try_simps)
      with w show ?thesis by (auto simp: await_Ready_Inl)
    next
      case 3
      then have "io_try (dx_write_all B ?buf) b = (Pending, b1)" using wr by (simp add: io_try_simps)
      with w show ?thesis by (auto simp: await_Pending)
    qed
    have run: "splice_branch A B a b = (case w of
        Ready (Inr _) \<Rightarrow> Some (Transferred (of_nat k), a1, b3)
      | Ready (Inl e) \<Rightarrow> Some (SpliceReturn e, a1, b3)
      | Pending \<Rightarrow> Some (SpliceStuck, a1, b3))"
      using rd k(2,3) buf w by (simp add: splice_branch_def split: poll.splits sum.splits)
    have ends: "a' = a1" "b' = b3" "flow \<noteq> SpliceBreak"
      using assms run by (auto split: poll.splits sum.splits)
    have flow: "m = of_nat k \<and> succeeded q" if "flow = Transferred m" for m
      using assms run written that by (cases w rule: succeeded.cases) auto
    have case_b: "b' = b1 \<or> b' = b2" using written ends by blast
    from j jk b2 case_b have "vwb b' = vwb b" "sentb b' = sentb b @ take j bs" by auto
    with k jk j(4) sent_a flow ends v show thesis
      by (intro that [of j k]) auto
  qed
qed

lemmas branch_back = splice_pair.branch [OF splice_pair.intro [OF laws(2) laws(1)]]

lemma splice_step:
  assumes "(case side of
        FromReader \<Rightarrow> splice_branch A B a b
      | FromWriter \<Rightarrow> map_option (\<lambda>(f, w, r). (f, r, w)) (splice_branch B A b a)) = Some (flow, a', b')"
  obtains xs ys where "sentb b' = sentb b @ xs" "senta a' = senta a @ ys"
    "Sublist.prefix xs (fst (vwa a))" "Sublist.prefix ys (fst (vwb b))"
    "\<And>m. flow = Transferred m \<Longrightarrow> fst (vwa a) = xs @ fst (vwa a') \<and> fst (vwb b) = ys @ fst (vwb b') \<and>
       m = of_nat (length xs + length ys)"
    "flow = SpliceBreak \<Longrightarrow> xs = [] \<and> ys = []"
proof (cases side)
  case FromReader
  with assms have "splice_branch A B a b = Some (flow, a', b')" by simp
  then obtain k n where "k \<le> n" "vwa a' = (drop n (fst (vwa a)), snd (vwa a))" "senta a' = senta a"
    "vwb b' = vwb b" "sentb b' = sentb b @ take k (fst (vwa a))"
    "\<And>m. flow = Transferred m \<Longrightarrow> k = n \<and> n \<le> length (fst (vwa a)) \<and> m = of_nat n"
    "flow = SpliceBreak \<Longrightarrow> k = 0" by (rule branch) blast
  then show thesis by (intro that [of "take k (fst (vwa a))" "[]"]) (auto simp: take_is_prefix)
next
  case FromWriter
  with assms have "splice_branch B A b a = Some (flow, b', a')" by auto
  then obtain k n where "k \<le> n" "vwb b' = (drop n (fst (vwb b)), snd (vwb b))" "sentb b' = sentb b"
    "vwa a' = vwa a" "senta a' = senta a @ take k (fst (vwb b))"
    "\<And>m. flow = Transferred m \<Longrightarrow> k = n \<and> n \<le> length (fst (vwb b)) \<and> m = of_nat n"
    "flow = SpliceBreak \<Longrightarrow> k = 0" by (rule branch_back) blast
  then show thesis by (intro that [of "[]" "take k (fst (vwb b))"]) (auto simp: take_is_prefix)
qed

lemma splice_run:
  assumes "splice A B sides st = (res, st')"
  shows "\<exists>xs ys. sentb (ds_writer st') = sentb (ds_writer st) @ xs \<and>
    senta (ds_reader st') = senta (ds_reader st) @ ys \<and>
    Sublist.prefix xs (fst (vwa (ds_reader st))) \<and> Sublist.prefix ys (fst (vwb (ds_writer st))) \<and>
    (\<forall>n. res = Ready (Inr n) \<longrightarrow> n = ds_bytes_transferred st + of_nat (length xs + length ys))"
  using assms
proof (induction sides arbitrary: st)
  case Nil
  then show ?case by (intro exI [of _ "[]"]) simp
next
  case (Cons side sides)
  let ?step = "case side of
      FromReader \<Rightarrow> splice_branch A B (ds_reader st) (ds_writer st)
    | FromWriter \<Rightarrow> map_option (\<lambda>(f, w, r). (f, r, w)) (splice_branch B A (ds_writer st) (ds_reader st))"
  show ?case
  proof (cases ?step)
    case None
    with Cons show ?thesis by simp
  next
    case (Some x)
    then obtain flow a b where step: "?step = Some (flow, a, b)" by (cases x) simp
    then obtain xs ys where
      xy: "sentb b = sentb (ds_writer st) @ xs" "senta a = senta (ds_reader st) @ ys"
        "Sublist.prefix xs (fst (vwa (ds_reader st)))" "Sublist.prefix ys (fst (vwb (ds_writer st)))"
      and go: "\<And>m. flow = Transferred m \<Longrightarrow> fst (vwa (ds_reader st)) = xs @ fst (vwa a) \<and>
        fst (vwb (ds_writer st)) = ys @ fst (vwb b) \<and> m = of_nat (length xs + length ys)"
      and stop: "flow = SpliceBreak \<Longrightarrow> xs = [] \<and> ys = []"
      by (rule splice_step) blast
    let ?st = "st\<lparr>ds_reader := a, ds_writer := b\<rparr>"
    show ?thesis
    proof (cases "\<exists>m. flow = Transferred m")
      case True
      then obtain m where m: "flow = Transferred m" by blast
      let ?st1 = "?st\<lparr>ds_bytes_transferred := ds_bytes_transferred st + m\<rparr>"
      from Cons.prems step m have "splice A B sides ?st1 = (res, st')" by simp
      from Cons.IH [OF this] obtain xs' ys' where
        "sentb (ds_writer st') = sentb b @ xs'" "senta (ds_reader st') = senta a @ ys'"
        "Sublist.prefix xs' (fst (vwa a))" "Sublist.prefix ys' (fst (vwb b))"
        "\<forall>n. res = Ready (Inr n) \<longrightarrow> n = ds_bytes_transferred st + m + of_nat (length xs' + length ys')"
        by auto
      with go [OF m] xy show ?thesis
        by (intro exI [of _ "xs @ xs'"] exI [of _ "ys @ ys'"]) (simp add: add_ac)
    next
      case False
      with Cons.prems step have "st' = ?st"
        "\<And>n. res = Ready (Inr n) \<Longrightarrow> flow = SpliceBreak \<and> n = ds_bytes_transferred st"
        by (auto simp: Let_def split: splice_flow.splits)
      with xy stop show ?thesis
        by (intro exI [of _ xs] exI [of _ ys]) auto
    qed
  qed
qed

end

text \<open>In-memory streams.\<close>

definition duplex_io_ops :: "duplex duplex_io" where
  "duplex_io_ops = \<lparr>dx_read = \<lambda>n. lifted d_in duplex_put (view_read 65535 n),
     dx_write_all = duplex_write_all, dx_flush = ret ()\<rparr>"

lemma duplex_laws_duplex: "duplex_laws duplex_io_ops d_in d_sent"
  by (auto simp: duplex_laws_def duplex_io_ops_def duplex_put_def write_law_duplex keeps_ret
      intro!: keeps_lifted read_law_lifted read_law_view_read)

interpretation duplex_splice: splice_pair duplex_io_ops d_in d_sent duplex_io_ops d_in d_sent
  by unfold_locales (rule duplex_laws_duplex)+

lemma try_join_Inr: "try_join x y = Ready (Inr (p, q)) \<Longrightarrow> x = Ready (Inr p) \<and> y = Ready (Inr q)"
  by (cases "(x, y)" rule: try_join.cases) auto

lemma unwrap_read_law:
  fixes vw :: "'a \<Rightarrow> view"
  assumes "read_law vw m"
  shows "read_law (vw \<circ> uw_inner) (\<lambda>n. unwrap_poll (m n))"
  unfolding read_law_def
proof (intro allI impI)
  fix n :: nat and u :: "'a unwrap_stream" and bs fin
  assume n: "0 < n" and "(vw \<circ> uw_inner) u = (bs, fin)"
  then have view: "vw (uw_inner u) = (bs, fin)" by simp
  have reader: "async_read vw m" using assms by (rule async_read.intro)
  show "(bs \<noteq> [] \<longrightarrow> (\<exists>k s'. 0 < k \<and> k \<le> n \<and> k \<le> length bs \<and>
        unwrap_poll (m n) u = (Ready (Inr (take k bs)), s') \<and> (vw \<circ> uw_inner) s' = (drop k bs, fin))) \<and>
     (bs = [] \<longrightarrow> (\<exists>s'. (vw \<circ> uw_inner) s' = ([], fin) \<and> unwrap_poll (m n) u =
        (case fin of Closed \<Rightarrow> Ready (Inr []) | Broken e \<Rightarrow> Ready (Inl e) | Open \<Rightarrow> Pending, s')))"
  proof (cases "bs = []")
    case False
    from async_read.read_some [OF reader n view False] obtain k s' where "0 < k" "k \<le> n"
      "k \<le> length bs" "m n (uw_inner u) = (Ready (Inr (take k bs)), s')" "vw s' = (drop k bs, fin)" .
    with False show ?thesis
      by (intro conjI impI exI [of _ k] exI [of _ "u\<lparr>uw_inner := s'\<rparr>"]) (simp_all add: unwrap_poll_def)
  next
    case True
    with view have "vw (uw_inner u) = ([], fin)" by simp
    from async_read.read_none [OF reader n this] obtain s' where "vw s' = ([], fin)"
      "m n (uw_inner u) =
        (case fin of Closed \<Rightarrow> Ready (Inr []) | Broken e \<Rightarrow> Ready (Inl e) | Open \<Rightarrow> Pending, s')" .
    with True show ?thesis
      by (intro conjI impI exI [of _ "u\<lparr>uw_inner := s'\<rparr>"]) (simp_all add: unwrap_poll_def)
  qed
qed

interpretation unwrapped_stream: async_read "id \<circ> uw_inner" "\<lambda>n. unwrap_poll (view_read k n)" for k
  by unfold_locales (rule unwrap_read_law, rule read_law_view_read)

section \<open>What tcp\_splice copies\<close>

fun view_of :: "('a \<Rightarrow> view) \<Rightarrow> ('b \<Rightarrow> view) \<Rightarrow> peer \<Rightarrow> 'a \<times> 'b \<Rightarrow> view" where
  "view_of vwa vwb StreamA (a, b) = vwa a"
| "view_of vwa vwb StreamB (a, b) = vwb b"

fun sent_of :: "('a \<Rightarrow> bytes) \<Rightarrow> ('b \<Rightarrow> bytes) \<Rightarrow> peer \<Rightarrow> 'a \<times> 'b \<Rightarrow> bytes" where
  "sent_of senta sentb StreamA (a, b) = senta a"
| "sent_of senta sentb StreamB (a, b) = sentb b"

text \<open>
  The documented behaviour of \<open>tokio::io::copy\<close>, of one poll of its future between any two halves: it takes some bytes
  \<open>xs\<close> off its reader and writes some bytes \<open>ys\<close> to its writer, in the order in which it has read
  them, and keeps the others; it touches nothing else. It is done when the reader has come to its end and everything
  is written, and returns how much that was. \<open>held\<close> and \<open>copied\<close> are what a future holds and has written.
\<close>

definition copy_poll_law ::
  "('a, 'b, 't, 'j) splice_ops \<Rightarrow> (peer \<Rightarrow> 'a \<times> 'b \<Rightarrow> view) \<Rightarrow> (peer \<Rightarrow> 'a \<times> 'b \<Rightarrow> bytes) \<Rightarrow>
   ('t \<Rightarrow> bytes) \<Rightarrow> ('t \<Rightarrow> u64) \<Rightarrow> bool" where
  "copy_poll_law ops view sent held copied \<longleftrightarrow>
     held (copy_start ops) = [] \<and> copied (copy_start ops) = 0 \<and>
     (\<forall>r w t s q t' s'. copy_poll ops (BufReader (ReadHalf r)) (BufWriter (WriteHalf w)) t s = (q, t', s') \<longrightarrow>
        (\<exists>xs ys rest fin. view r s = (xs @ rest, fin) \<and> view r s' = (rest, fin) \<and>
           (\<forall>p. p \<noteq> r \<longrightarrow> view p s' = view p s) \<and>
           sent w s' = sent w s @ ys \<and> (\<forall>p. p \<noteq> w \<longrightarrow> sent p s' = sent p s) \<and>
           Sublist.prefix ys (held t @ xs) \<and>
           (q = Pending \<longrightarrow> held t @ xs = ys @ held t' \<and> copied t' = copied t + of_nat (length ys)) \<and>
           (\<forall>n. q = Ready (Inr n) \<longrightarrow> rest = [] \<and> fin = Closed \<and> ys = held t @ xs \<and>
              n = copied t + of_nat (length ys))))"

text \<open>How far a task has come that copies the bytes \<open>bs\<close>, which end as \<open>fin\<close> says: what it has written
  of them, and what is left in its reader.\<close>

fun task_progress ::
  "('t \<Rightarrow> bytes) \<Rightarrow> ('t \<Rightarrow> u64) \<Rightarrow> bytes \<Rightarrow> stream_end \<Rightarrow> ('t, 'j) copy_task \<Rightarrow> view \<Rightarrow> bytes \<Rightarrow> bool" where
  "task_progress held copied bs fin (CopyTask r w (Running t)) v out \<longleftrightarrow>
     snd v = fin \<and> out @ held t @ fst v = bs \<and> copied t = of_nat (length out)"
| "task_progress held copied bs fin (CopyTask r w (Finished (Inr (Inr n)))) v out \<longleftrightarrow>
     fin = Closed \<and> out = bs \<and> n = of_nat (length out)"
| "task_progress held copied bs fin (CopyTask r w (Finished x)) v out \<longleftrightarrow> Sublist.prefix out bs"

fun runs_between :: "peer \<Rightarrow> peer \<Rightarrow> ('t, 'j) copy_task \<Rightarrow> bool" where
  "runs_between r w (CopyTask r' w' q) \<longleftrightarrow> r' = BufReader (ReadHalf r) \<and> w' = BufWriter (WriteHalf w)"

lemma task_progress_prefix: "task_progress held copied bs fin task v out \<Longrightarrow> Sublist.prefix out bs"
  by (induction held copied bs fin task v out rule: task_progress.induct) auto

locale copying =
  fixes ops :: "('a, 'b, 't, 'j) splice_ops"
    and view :: "peer \<Rightarrow> 'a \<times> 'b \<Rightarrow> view" and sent :: "peer \<Rightarrow> 'a \<times> 'b \<Rightarrow> bytes"
    and held :: "'t \<Rightarrow> bytes" and copied :: "'t \<Rightarrow> u64"
  assumes laws: "copy_poll_law ops view sent held copied"
begin

text \<open>A turn of a task: its own copying goes on, and what the other one reads and writes is left alone.\<close>

lemma task_turn_progress:
  assumes turn: "task_turn ops name turn task s = (task', s')"
    and between: "runs_between r w task" and out: "sent w s = before @ out"
    and progress: "task_progress held copied bs fin task (view r s) out"
  shows "runs_between r w task' \<and> (\<exists>out'. sent w s' = before @ out' \<and>
      task_progress held copied bs fin task' (view r s') out') \<and>
    (\<forall>p. p \<noteq> r \<longrightarrow> view p s' = view p s) \<and> (\<forall>p. p \<noteq> w \<longrightarrow> sent p s' = sent p s)"
proof -
  obtain r' w' q where task: "task = CopyTask r' w' q" by (cases task)
  with between have half: "r' = BufReader (ReadHalf r)" "w' = BufWriter (WriteHalf w)" by simp_all
  consider (idle) "s' = s" "runs_between r w task'" "task_progress held copied bs fin task' (view r s) out"
    | (polled) t where "q = Running t" "turn = PollTask name"
  proof (cases q)
    case (Running t)
    show thesis
    proof (cases turn)
      case (PollTask n)
      with Running turn task between progress that show thesis by (cases "n = name") simp_all
    next
      case (PanicTask n j)
      with Running turn task between progress task_progress_prefix [OF progress] show thesis
        by (intro that(1)) (auto split: if_splits)
    qed
  next
    case (Finished x)
    with turn task between progress show thesis by (intro that(1)) simp_all
  qed
  then show ?thesis
  proof cases
    case idle
    with out show ?thesis by auto
  next
    case polled
    obtain x t' s1 where poll: "copy_poll ops (BufReader (ReadHalf r)) (BufWriter (WriteHalf w)) t s = (x, t', s1)"
      by (metis prod_cases3)
    from laws [unfolded copy_poll_law_def] poll obtain xs ys rest fin' where
      view: "view r s = (xs @ rest, fin')" "view r s1 = (rest, fin')" "\<forall>p. p \<noteq> r \<longrightarrow> view p s1 = view p s"
      and sent: "sent w s1 = sent w s @ ys" "\<forall>p. p \<noteq> w \<longrightarrow> sent p s1 = sent p s"
      and ys: "Sublist.prefix ys (held t @ xs)"
      and more_to_do: "x = Pending \<Longrightarrow> held t @ xs = ys @ held t' \<and> copied t' = copied t + of_nat (length ys)"
      and all_done: "\<And>n. x = Ready (Inr n) \<Longrightarrow> rest = [] \<and> fin' = Closed \<and> ys = held t @ xs \<and>
        n = copied t + of_nat (length ys)" by blast
    from progress task polled(1) view(1) have was: "fin' = fin" "out @ held t @ xs @ rest = bs"
      "copied t = of_nat (length out)" by simp_all
    have s': "s' = s1" and task': "task' = (case x of Ready y \<Rightarrow> CopyTask r' w' (Finished (Inr y))
        | Pending \<Rightarrow> CopyTask r' w' (Running t'))"
      using turn task half polled poll by (simp_all split: poll.splits)
    have "task_progress held copied bs fin task' (view r s1) (out @ ys)"
    proof (cases x)
      case Pending
      with more_to_do have "held t @ xs = ys @ held t'" "copied t' = copied t + of_nat (length ys)" by simp_all
      with was view(2) Pending show ?thesis
        by (simp add: task') (metis append.assoc)
    next
      case (Ready y)
      show ?thesis
      proof (cases y)
        case (Inl e)
        have "Sublist.prefix (held t @ xs) (held t @ xs @ rest)" by (simp add: prefix_def)
        with ys have "Sublist.prefix ys (held t @ xs @ rest)" by (rule prefix_order.trans)
        with was(2) Inl Ready show ?thesis by (auto simp: task')
      next
        case (Inr n)
        with all_done Ready was have fin: "fin = Closed" and bs: "bs = out @ ys"
          and n: "n = of_nat (length out) + of_nat (length ys)" by auto
        show ?thesis unfolding task' Ready Inr fin bs n by simp
      qed
    qed
    with view sent out half s' task' show ?thesis by (auto split: poll.splits)
  qed
qed

lemma join_tasks_run:
  assumes "join_tasks ops turns a_to_b b_to_a s = (res, s')"
    and "runs_between StreamA StreamB a_to_b" "runs_between StreamB StreamA b_to_a"
    and "sent StreamB s = before_b @ out" "sent StreamA s = before_a @ echoed"
    and "task_progress held copied bs_a fin_a a_to_b (view StreamA s) out"
    and "task_progress held copied bs_b fin_b b_to_a (view StreamB s) echoed"
  shows "\<exists>xs ys. sent StreamB s' = before_b @ xs \<and> sent StreamA s' = before_a @ ys \<and>
    Sublist.prefix xs bs_a \<and> Sublist.prefix ys bs_b \<and>
    (\<forall>m n. res = Ready (Inr (Inr m, Inr n)) \<longrightarrow> fin_a = Closed \<and> fin_b = Closed \<and> xs = bs_a \<and> ys = bs_b \<and>
       m = of_nat (length xs) \<and> n = of_nat (length ys))"
proof -
  have joined: ?thesis
    if "try_join (join_handle a_to_b) (join_handle b_to_a) = res" "s' = s"
      and st: "sent StreamB s = before_b @ out" "sent StreamA s = before_a @ echoed"
        "task_progress held copied bs_a fin_a a_to_b (view StreamA s) out"
        "task_progress held copied bs_b fin_b b_to_a (view StreamB s) echoed"
    for a_to_b b_to_a s out echoed
  proof -
    have "fin_a = Closed \<and> fin_b = Closed \<and> out = bs_a \<and> echoed = bs_b \<and>
        m = of_nat (length out) \<and> n = of_nat (length echoed)" if "res = Ready (Inr (Inr m, Inr n))" for m n
    proof -
      from try_join_Inr [of "join_handle a_to_b" "join_handle b_to_a"] that \<open>try_join _ _ = res\<close>
      have "join_handle a_to_b = Ready (Inr (Inr m))" "join_handle b_to_a = Ready (Inr (Inr n))" by simp_all
      then obtain r w r' w' where "a_to_b = CopyTask r w (Finished (Inr (Inr m)))"
        "b_to_a = CopyTask r' w' (Finished (Inr (Inr n)))"
        by (metis join_handle.elims poll.distinct(1) poll.inject)
      with st(3,4) show ?thesis by simp
    qed
    with st task_progress_prefix that(2) show ?thesis by blast
  qed
  show ?thesis
    using assms
  proof (induction turns arbitrary: a_to_b b_to_a s out echoed)
    case Nil
    then show ?case by (intro joined [of a_to_b b_to_a s out echoed]) simp_all
  next
    case (Cons turn turns)
    show ?case
    proof (cases "try_join (join_handle a_to_b) (join_handle b_to_a)")
      case (Ready x)
      with Cons.prems show ?thesis by (intro joined [of a_to_b b_to_a s out echoed]) simp_all
    next
      case Pending
      obtain ab s1 where t1: "task_turn ops AToB turn a_to_b s = (ab, s1)" by (rule prod.exhaust)
      obtain ba s2 where t2: "task_turn ops BToA turn b_to_a s1 = (ba, s2)" by (rule prod.exhaust)
      from task_turn_progress [OF t1 Cons.prems(2,4,6)] obtain out1 where
        p1: "runs_between StreamA StreamB ab" "sent StreamB s1 = before_b @ out1"
          "task_progress held copied bs_a fin_a ab (view StreamA s1) out1"
          "view StreamB s1 = view StreamB s" "sent StreamA s1 = sent StreamA s" by auto
      have "sent StreamA s1 = before_a @ echoed" "task_progress held copied bs_b fin_b b_to_a (view StreamB s1) echoed"
        using p1(4,5) Cons.prems(5,7) by simp_all
      from task_turn_progress [OF t2 Cons.prems(3) this] obtain back1 where
        p2: "runs_between StreamB StreamA ba" "sent StreamA s2 = before_a @ back1"
          "task_progress held copied bs_b fin_b ba (view StreamB s2) back1"
          "view StreamA s2 = view StreamA s1" "sent StreamB s2 = sent StreamB s1" by auto
      from Cons.prems(1) Pending t1 t2 have "join_tasks ops turns ab ba s2 = (res, s')" by simp
      from Cons.IH [OF this p1(1) p2(1) _ p2(2) _ p2(3), of out1] p1(2,3) p2(4,5) show ?thesis by simp
    qed
  qed
qed

text \<open>
  \<open>tcp_splice\<close> on any schedule: either side is written an initial part of what the other delivers, and
  when it succeeds both have ended and everything was passed on and counted.
\<close>

lemma splice_forwards:
  assumes "tcp_splice ops turns a b = (res, a', b')"
  shows "\<exists>xs ys. sent StreamB (a', b') = sent StreamB (a, b) @ xs \<and>
    sent StreamA (a', b') = sent StreamA (a, b) @ ys \<and>
    Sublist.prefix xs (fst (view StreamA (a, b))) \<and> Sublist.prefix ys (fst (view StreamB (a, b))) \<and>
    (\<forall>n. res = Ready (Inr n) \<longrightarrow> snd (view StreamA (a, b)) = Closed \<and> snd (view StreamB (a, b)) = Closed \<and>
       xs = fst (view StreamA (a, b)) \<and> ys = fst (view StreamB (a, b)) \<and> n = of_nat (length xs + length ys))"
proof -
  let ?ab = "spawn_copy ops (BufReader (ReadHalf StreamA)) (BufWriter (WriteHalf StreamB))"
  let ?ba = "spawn_copy ops (BufReader (ReadHalf StreamB)) (BufWriter (WriteHalf StreamA))"
  obtain q s' where run: "join_tasks ops turns ?ab ?ba (a, b) = (q, s')" by (rule prod.exhaust)
  with assms have s': "s' = (a', b')" and res: "res = (case q of Pending \<Rightarrow> Pending | Ready joined \<Rightarrow>
      Ready (bind_res (from_join (join_message ops) joined) (\<lambda>(tx_bytes, rx_bytes).
        bind_res (from_io tx_bytes) (\<lambda>tx. bind_res (from_io rx_bytes) (\<lambda>rx. Inr (tx + rx))))))"
    by (auto simp: tcp_splice_def io_split_def Let_def split: prod.splits poll.splits)
  have fresh: "held (copy_start ops) = []" "copied (copy_start ops) = 0"
    using laws by (simp_all add: copy_poll_law_def)
  obtain xs ys where xs: "sent StreamB s' = sent StreamB (a, b) @ xs" "sent StreamA s' = sent StreamA (a, b) @ ys"
    "Sublist.prefix xs (fst (view StreamA (a, b)))" "Sublist.prefix ys (fst (view StreamB (a, b)))"
    "\<forall>m n. q = Ready (Inr (Inr m, Inr n)) \<longrightarrow> snd (view StreamA (a, b)) = Closed \<and>
       snd (view StreamB (a, b)) = Closed \<and> xs = fst (view StreamA (a, b)) \<and> ys = fst (view StreamB (a, b)) \<and>
       m = of_nat (length xs) \<and> n = of_nat (length ys)"
    using join_tasks_run [OF run, of "sent StreamB (a, b)" "[]" "sent StreamA (a, b)" "[]"
        "fst (view StreamA (a, b))" "snd (view StreamA (a, b))" "fst (view StreamB (a, b))" "snd (view StreamB (a, b))"]
      fresh by (auto simp: spawn_copy_def)
  have "\<exists>m k. q = Ready (Inr (Inr m, Inr k)) \<and> n = m + k" if "res = Ready (Inr n)" for n
    using that res by (auto simp: from_join_Inr_iff from_io_Inr_iff bind_res_Inr_iff split: poll.splits)
  with xs show ?thesis unfolding s' by fastforce
qed

end

section \<open>Properties\<close>

text \<open>
  C31. \<open>DirectSplice\<close>, however its branches are scheduled, writes to each stream an initial part of
  what the other delivers, in order, and when it returns a count it is the number of bytes passed on
  in both directions (modulo \<open>2 ^ 64\<close>).
\<close>

theorem direct_splice_forwards:
  assumes "duplex_laws R vwr sentr" and "duplex_laws W vww sentw"
    and "splice R W sides (direct_splice_new r w) = (res, st')"
  shows "\<exists>xs ys. sentw (ds_writer st') = sentw w @ xs \<and> sentr (ds_reader st') = sentr r @ ys \<and>
    Sublist.prefix xs (fst (vwr r)) \<and> Sublist.prefix ys (fst (vww w)) \<and>
    (\<forall>n. res = Ready (Inr n) \<longrightarrow> n = of_nat (length xs + length ys))"
  using splice_pair.splice_run [OF splice_pair.intro [OF assms(1,2)] assms(3)]
  by (simp add: direct_splice_new_def)

text \<open>
  \<open>DirectSplice\<close> ends at the first end of stream: when one side finishes sending first, it
  returns successfully although the other side's bytes are there and have not been passed on.
\<close>

definition half_close_run :: "side list \<Rightarrow> (trojan_error + u64) poll \<times> (duplex, duplex) direct_splice" where
  "half_close_run sides = splice duplex_io_ops duplex_io_ops sides
     (direct_splice_new \<lparr>d_in = ([1], Closed), d_sent = []\<rparr> \<lparr>d_in = ([2, 3], Closed), d_sent = []\<rparr>)"

lemmas splice_eval = half_close_run_def direct_splice_new_def splice_branch_def duplex_io_ops_def
  lifted_def view_read_def BUFFER_SIZE_def duplex_put_def await_def io_try_def from_io_def
  duplex_write_all_def ret_def

lemma half_close_kept:
  "half_close_run [FromReader, FromWriter, FromReader] =
     (Ready (Inr 3), \<lparr>ds_reader = \<lparr>d_in = ([], Closed), d_sent = [2, 3]\<rparr>,
        ds_writer = \<lparr>d_in = ([], Closed), d_sent = [1]\<rparr>, ds_bytes_transferred = 3\<rparr>)"
  by (simp add: splice_eval)

theorem direct_splice_half_close:
  "half_close_run [FromReader, FromWriter, FromReader] =
     (Ready (Inr 3), \<lparr>ds_reader = \<lparr>d_in = ([], Closed), d_sent = [2, 3]\<rparr>,
        ds_writer = \<lparr>d_in = ([], Closed), d_sent = [1]\<rparr>, ds_bytes_transferred = 3\<rparr>) \<and>
   half_close_run [FromReader, FromReader, FromWriter] =
     (Ready (Inr 1), \<lparr>ds_reader = \<lparr>d_in = ([], Closed), d_sent = []\<rparr>,
        ds_writer = \<lparr>d_in = ([2, 3], Closed), d_sent = [1]\<rparr>, ds_bytes_transferred = 1\<rparr>)"
  by (simp add: splice_eval)

theorem direct_splice_forwards_witness:
  "\<exists>xs ys. [1] = [] @ xs \<and> [2, 3] = [] @ ys \<and> Sublist.prefix xs [1 :: u8] \<and>
     Sublist.prefix ys [2, 3 :: u8] \<and> (3 :: u64) = of_nat (length xs + length ys)"
  using direct_splice_forwards [OF duplex_laws_duplex duplex_laws_duplex
      half_close_kept [unfolded half_close_run_def]] by simp

text \<open>
  An in-memory \<open>tokio::io::copy\<close>: each poll writes what was read by the one before, or reads at most 8192 bytes.
\<close>

fun side_of :: "peer \<Rightarrow> duplex \<times> duplex \<Rightarrow> duplex" where
  "side_of StreamA (a, b) = a"
| "side_of StreamB (a, b) = b"

fun on_side :: "peer \<Rightarrow> (duplex \<Rightarrow> duplex) \<Rightarrow> duplex \<times> duplex \<Rightarrow> duplex \<times> duplex" where
  "on_side StreamA f (a, b) = (f a, b)"
| "on_side StreamB f (a, b) = (a, f b)"

fun memory_copy_poll ::
  "buf_reader \<Rightarrow> buf_writer \<Rightarrow> bytes \<times> u64 \<Rightarrow> duplex \<times> duplex \<Rightarrow>
   (io_error + u64) poll \<times> (bytes \<times> u64) \<times> duplex \<times> duplex" where
  "memory_copy_poll (BufReader (ReadHalf r)) (BufWriter (WriteHalf w)) (buf, n) s =
     (if buf \<noteq> [] then
        (Pending, ([], n + of_nat (length buf)), on_side w (\<lambda>d. d\<lparr>d_sent := d_sent d @ buf\<rparr>) s)
      else
        (case d_in (side_of r s) of
           (x # xs, fin) \<Rightarrow>
             (Pending, (take 8192 (x # xs), n), on_side r (\<lambda>d. d\<lparr>d_in := (drop 8192 (x # xs), fin)\<rparr>) s)
         | ([], Closed) \<Rightarrow> (Ready (Inr n), ([], n), s)
         | ([], Broken e) \<Rightarrow> (Ready (Inl e), ([], n), s)
         | ([], Open) \<Rightarrow> (Pending, ([], n), s)))"

definition memory_copies :: "(duplex, duplex, bytes \<times> u64, unit) splice_ops" where
  "memory_copies = \<lparr>copy_start = ([], 0), copy_poll = memory_copy_poll, join_message = \<lambda>_. ascii ''panic''\<rparr>"

lemma view_on_side:
  "view_of d_in d_in p (on_side q f s) =
     (if p = q then d_in (f (side_of q s)) else view_of d_in d_in p s)"
  "sent_of d_sent d_sent p (on_side q f s) =
     (if p = q then d_sent (f (side_of q s)) else sent_of d_sent d_sent p s)"
  "d_in (side_of p s) = view_of d_in d_in p s" "d_sent (side_of p s) = sent_of d_sent d_sent p s"
  by (cases s; cases p; cases q; simp)+

lemma memory_copies_law:
  "copy_poll_law memory_copies (view_of d_in d_in) (sent_of d_sent d_sent) fst snd"
  unfolding copy_poll_law_def
proof (intro conjI allI impI)
  fix r w t q t' and s s' :: "duplex \<times> duplex"
  let ?view = "view_of d_in d_in" and ?sent = "sent_of d_sent d_sent"
  assume "copy_poll memory_copies (BufReader (ReadHalf r)) (BufWriter (WriteHalf w)) t s = (q, t', s')"
  then have poll: "memory_copy_poll (BufReader (ReadHalf r)) (BufWriter (WriteHalf w)) t s = (q, t', s')"
    by (simp add: memory_copies_def)
  obtain buf n where t: "t = (buf, n)" by (cases t)
  obtain bs fin where v: "?view r s = (bs, fin)" by (cases "?view r s")
  show "\<exists>xs ys rest fin. ?view r s = (xs @ rest, fin) \<and> ?view r s' = (rest, fin) \<and>
      (\<forall>p. p \<noteq> r \<longrightarrow> ?view p s' = ?view p s) \<and>
      ?sent w s' = ?sent w s @ ys \<and> (\<forall>p. p \<noteq> w \<longrightarrow> ?sent p s' = ?sent p s) \<and>
      Sublist.prefix ys (fst t @ xs) \<and>
      (q = Pending \<longrightarrow> fst t @ xs = ys @ fst t' \<and> snd t' = snd t + of_nat (length ys)) \<and>
      (\<forall>n. q = Ready (Inr n) \<longrightarrow> rest = [] \<and> fin = Closed \<and> ys = fst t @ xs \<and>
        n = snd t + of_nat (length ys))"
  proof (cases "buf = []")
    case False
    with poll t v show ?thesis
      by (intro exI [of _ "[]"] exI [of _ buf] exI [of _ bs] exI [of _ fin]) (auto simp: view_on_side)
  next
    case True
    with poll t v show ?thesis
      by (intro exI [of _ "take 8192 bs"] exI [of _ "[]"] exI [of _ "drop 8192 bs"] exI [of _ fin])
        (auto simp: view_on_side split: list.splits stream_end.splits)
  qed
qed (simp_all add: memory_copies_def)

interpretation memory_copying: copying memory_copies "view_of d_in d_in" "sent_of d_sent d_sent" fst snd
  by unfold_locales (rule memory_copies_law)

text \<open>Both ways at once: client bytes and target bytes pass one another.\<close>

definition both_ways :: "unit splice_turn list" where
  "both_ways = concat (replicate 3 [PollTask AToB, PollTask BToA])"

lemmas both_ways_eval = both_ways_def numeral_3_eq_3 tcp_splice_def io_split_def spawn_copy_def
  memory_copies_def from_join_def from_io_def

lemma tcp_splice_both_ways:
  "tcp_splice memory_copies both_ways \<lparr>d_in = ([1], Closed), d_sent = []\<rparr> \<lparr>d_in = ([2, 3], Closed), d_sent = []\<rparr> =
     (Ready (Inr 3), \<lparr>d_in = ([], Closed), d_sent = [2, 3]\<rparr>, \<lparr>d_in = ([], Closed), d_sent = [1]\<rparr>)"
  by (simp add: both_ways_eval)

text \<open>
  An \<open>UnwrapStream\<close> over a documented reader is one with the same bytes, whether or not it is
  marked as decrypted; \<open>into_inner\<close> gives the stream back as reading has left it.
\<close>

theorem unwrap_stream_transparent:
  assumes "read_law vw m"
  shows "read_law (vw \<circ> uw_inner) (\<lambda>n. unwrap_poll (m n)) \<and>
    (vw \<circ> uw_inner) (unwrap_new s) = vw s \<and> (vw \<circ> uw_inner) (mark_decrypted u) = vw (into_inner u) \<and>
    \<not> is_decrypted (unwrap_new s) \<and> is_decrypted (mark_decrypted u)"
  by (simp add: unwrap_read_law [OF assms] unwrap_new_def mark_decrypted_def into_inner_def
      is_decrypted_def)

theorem unwrap_stream_transparent_witness:
  "read_law (id \<circ> uw_inner) (\<lambda>n. unwrap_poll (view_read 0 n)) \<and>
   (id \<circ> uw_inner) (unwrap_new ([1 :: u8], Closed)) = id ([1], Closed) \<and>
   (id \<circ> uw_inner) (mark_decrypted (unwrap_new ([1 :: u8], Closed))) =
     id (into_inner (unwrap_new ([1], Closed))) \<and>
   \<not> is_decrypted (unwrap_new ([1 :: u8], Closed)) \<and>
   is_decrypted (mark_decrypted (unwrap_new ([1 :: u8], Closed)))"
  by (rule unwrap_stream_transparent) (rule read_law_view_read)

end
