(* ===== verification/Vision.thy ===== *)
theory Vision
  imports Headers
begin

text \<open>
  src/reality/vision.rs: the Vision authentication request, its encoding with an integrity hash, its
  reader with the timestamp window, and authentication. SHA-224 and the clock are parameters; so is
  whether the build checks arithmetic overflow (debug builds panic, release builds wrap around).
\<close>

section \<open>The code\<close>

definition VISION_MAGIC_HEADER :: u8 where "VISION_MAGIC_HEADER = 0xFE"
definition VISION_VERSION :: u8 where "VISION_VERSION = 0x01"
definition VISION_PASSWORD_HEX_LEN :: nat where "VISION_PASSWORD_HEX_LEN = 56"
definition VISION_HASH_LEN :: nat where "VISION_HASH_LEN = 28"

lemmas vision_consts =
  VISION_MAGIC_HEADER_def VISION_VERSION_def VISION_PASSWORD_HEX_LEN_def VISION_HASH_LEN_def

record vision_request =
  v_magic :: u8
  v_version :: u8
  v_command :: command
  v_address :: address
  v_timestamp :: u64
  v_password_hash :: bytes
  v_integrity_hash :: bytes

text \<open>
  The environment: \<open>Sha224\<close>, the seconds since the epoch (\<^const>\<open>None\<close> before it), and whether
  overflow is checked.
\<close>

record vision_env =
  sha224 :: "bytes \<Rightarrow> bytes"
  unix_clock :: "u64 option"
  overflow_checks :: bool

definition current_unix_timestamp :: "vision_env \<Rightarrow> u64 res" where
  "current_unix_timestamp env =
     (case unix_clock env of
        Some secs \<Rightarrow> Inr secs
      | None \<Rightarrow> Inl (Protocol (ascii ''System clock before UNIX_EPOCH'')))"

definition parse_password_hash :: "rstring \<Rightarrow> bytes res" where
  "parse_password_hash value =
     (if length value \<noteq> VISION_PASSWORD_HEX_LEN \<or> \<not> list_all is_ascii_hexdigit value then
        Inl (Protocol (ascii ''Vision password hash must be 56 hex characters''))
      else Inr value)"

definition encoded_without_integrity_hash :: "vision_request \<Rightarrow> bytes res" where
  "encoded_without_integrity_hash r =
     bind_res (encode (v_address r)) (\<lambda>addr_bytes.
     Inr ([v_magic r, v_version r, as_u8 (v_command r)] @ addr_bytes @ to_be (v_timestamp r) @
       v_password_hash r))"

definition compute_hash :: "vision_env \<Rightarrow> bytes \<Rightarrow> bytes" where
  "compute_hash env buf = sha224 env buf"

definition with_integrity_hash :: "vision_env \<Rightarrow> vision_request \<Rightarrow> vision_request res" where
  "with_integrity_hash env r =
     bind_res (encoded_without_integrity_hash r) (\<lambda>base.
     Inr (r\<lparr>v_integrity_hash := compute_hash env base\<rparr>))"

definition encode_with_integrity_hash :: "vision_request \<Rightarrow> bytes res" where
  "encode_with_integrity_hash r =
     bind_res (encoded_without_integrity_hash r) (\<lambda>buf. Inr (buf @ v_integrity_hash r))"

definition vision_encode :: "vision_env \<Rightarrow> vision_request \<Rightarrow> bytes res" where
  "vision_encode env r = bind_res (with_integrity_hash env r) encode_with_integrity_hash"

definition vision_request_new ::
  "vision_env \<Rightarrow> command \<Rightarrow> address \<Rightarrow> rstring \<Rightarrow> vision_request res" where
  "vision_request_new env command address password_hash_hex =
     bind_res (parse_password_hash password_hash_hex) (\<lambda>password_hash.
     bind_res (current_unix_timestamp env) (\<lambda>timestamp.
     with_integrity_hash env
       \<lparr>v_magic = VISION_MAGIC_HEADER, v_version = VISION_VERSION, v_command = command,
         v_address = address, v_timestamp = timestamp, v_password_hash = password_hash,
         v_integrity_hash = replicate VISION_HASH_LEN 0\<rparr>))"

definition verify_integrity :: "vision_env \<Rightarrow> vision_request \<Rightarrow> unit res" where
  "verify_integrity env r =
     bind_res (encoded_without_integrity_hash r) (\<lambda>base.
     if compute_hash env base \<noteq> v_integrity_hash r then
       Inl (Protocol (ascii ''Vision integrity check failed''))
     else Inr ())"

text \<open>
  \<open>(current_time as i64 - timestamp as i64).abs() > 300\<close>: the casts reinterpret the bits, the
  subtraction and \<open>abs\<close> panic on overflow when it is checked and wrap around otherwise.
\<close>

definition i64_sub :: "bool \<Rightarrow> u64 \<Rightarrow> u64 \<Rightarrow> u64 option" where
  "i64_sub checks a b = (if checks \<and> sint (a - b) \<noteq> sint a - sint b then None else Some (a - b))"

definition i64_abs :: "bool \<Rightarrow> u64 \<Rightarrow> u64 option" where
  "i64_abs checks a =
     (if checks \<and> sint a = - (2 ^ 63) then None else Some (if sint a < 0 then - a else a))"

definition timestamp_expired :: "bool \<Rightarrow> u64 \<Rightarrow> u64 \<Rightarrow> bool option" where
  "timestamp_expired checks current_time timestamp = do {
     d \<leftarrow> i64_sub checks current_time timestamp;
     a \<leftarrow> i64_abs checks d;
     Some (300 < sint a)
   }"

text \<open>
  The reader: a result \<^const>\<open>None\<close> is a panic. What follows the address is a definition of its own.
\<close>

definition vision_read_rest ::
  "vision_env \<Rightarrow> 's async_reader \<Rightarrow> u8 \<Rightarrow> u8 \<Rightarrow> command \<Rightarrow> address \<Rightarrow>
   ('s, trojan_error, vision_request option) io" where
  "vision_read_rest env R magic version command address =
     await (io_try (rd_u64 R)) (\<lambda>timestamp.
     await (io_try (rd_exact R VISION_PASSWORD_HEX_LEN)) (\<lambda>password_hash.
     if \<not> list_all is_ascii_hexdigit password_hash then
       throw (Protocol (ascii ''Invalid Vision password hash format''))
     else
       await (io_try (rd_exact R VISION_HASH_LEN)) (\<lambda>integrity_hash.
       await (lift_res (current_unix_timestamp env)) (\<lambda>current_time.
       case timestamp_expired (overflow_checks env) current_time timestamp of
         None \<Rightarrow> ret None
       | Some expired \<Rightarrow>
           if expired then throw (Protocol (ascii ''Timestamp expired''))
           else
             (let request = \<lparr>v_magic = magic, v_version = version, v_command = command,
                v_address = address, v_timestamp = timestamp, v_password_hash = password_hash,
                v_integrity_hash = integrity_hash\<rparr>
              in await (lift_res (verify_integrity env request)) (\<lambda>_. ret (Some request)))))))"

definition vision_read_from ::
  "vision_env \<Rightarrow> 's async_reader \<Rightarrow> ('s, trojan_error, vision_request option) io" where
  "vision_read_from env R =
     await (io_try (rd_u8 R)) (\<lambda>magic.
     if magic \<noteq> VISION_MAGIC_HEADER then
       throw (Protocol (ascii ''Invalid Vision magic header: '' @ show_hex (uint magic)))
     else
       await (io_try (rd_u8 R)) (\<lambda>version.
       if version \<noteq> VISION_VERSION then
         throw (Protocol (ascii ''Unsupported Vision version: '' @ show_dec (uint version)))
       else
         await (io_try (rd_u8 R)) (\<lambda>cmd_byte.
         await (lift_res (command_from_u8 cmd_byte)) (\<lambda>command.
         await (address_read_from R) (\<lambda>address.
         vision_read_rest env R magic version command address)))))"

text \<open>
  \<open>VisionProtocol::authenticate\<close>: a request that is still incomplete when the timeout elapses is a
  \<open>Timeout\<close>; the bytes of the stream are those that have arrived until then.
\<close>

definition authenticate ::
  "vision_env \<Rightarrow> 's async_reader \<Rightarrow> rstring list \<Rightarrow>
   ('s, trojan_error, (command \<times> address) option) io" where
  "authenticate env R valid_passwords = (\<lambda>s.
     case vision_read_from env R s of
       (Pending, s) \<Rightarrow> throw Timeout s
     | (Ready (Inl e), s) \<Rightarrow> throw e s
     | (Ready (Inr None), s) \<Rightarrow> ret None s
     | (Ready (Inr (Some auth_request)), s) \<Rightarrow>
         if \<not> utf8_valid (v_password_hash auth_request) then
           throw (Protocol (ascii ''Invalid Vision password hash encoding'')) s
         else if \<not> list_ex (\<lambda>candidate.
             eq_ignore_ascii_case candidate (v_password_hash auth_request)) valid_passwords then
           throw AuthenticationFailed s
         else ret (Some (v_command auth_request, v_address auth_request)) s)"

definition is_vision_packet :: "bytes \<Rightarrow> bool" where
  "is_vision_packet data \<longleftrightarrow>
     2 \<le> length data \<and> data ! 0 = VISION_MAGIC_HEADER \<and> data ! 1 = VISION_VERSION"

section \<open>The timestamp window\<close>

lemma sint_u64: "sint (a :: u64) = (if uint a < 2 ^ 63 then uint a else uint a - 2 ^ 64)"
proof -
  have "sint a = (uint a + 2 ^ 63) mod 2 ^ 64 - 2 ^ 63"
    by (simp add: sint_uint signed_take_bit_eq_take_bit_shift take_bit_eq_mod)
  moreover have "0 \<le> uint a" "uint a < 2 ^ 64"
    using uint_bounded [of a] by simp_all
  moreover from this have "\<not> uint a < 2 ^ 63 \<Longrightarrow> (uint a + 2 ^ 63) mod 2 ^ 64 = uint a - 2 ^ 63"
    by (intro int_mod_pos_eq [where q = 1]) simp_all
  ultimately show ?thesis
    by (simp add: mod_pos_pos_trivial)
qed

lemma uint_minus_u64: "uint (- a :: u64) = (if a = 0 then 0 else 2 ^ 64 - uint a)"
proof -
  have "0 \<le> uint a" "uint a < 2 ^ 64"
    using uint_bounded [of a] by simp_all
  then show ?thesis
    by (auto simp: uint_word_ariths zmod_zminus1_eq_if uint_0_iff)
qed

lemma abs_window:
  fixes d :: u64
  shows "sint (if sint d < 0 then - d else d) \<le> 300 \<longleftrightarrow>
    uint d \<le> 300 \<or> uint (- d) \<le> 300 \<or> uint d = 2 ^ 63"
proof -
  have "0 \<le> uint d" "uint d < 2 ^ 64"
    using uint_bounded [of d] by simp_all
  then show ?thesis
    by (auto simp: sint_u64 uint_minus_u64)
qed

lemma far_timestamp: "ts = now + 2 ^ 63 \<longleftrightarrow> uint (now - ts :: u64) = 2 ^ 63"
proof
  assume "ts = now + 2 ^ 63"
  then show "uint (now - ts) = 2 ^ 63" by simp
next
  assume "uint (now - ts) = 2 ^ 63"
  then have "now - ts = 2 ^ 63" by (intro word_uint_eqI) simp
  moreover have "now - (2 ^ 63 :: u64) = now + 2 ^ 63" by simp
  ultimately show "ts = now + 2 ^ 63"
    by (metis diff_diff_eq2 add_diff_cancel_left' diff_add_cancel)
qed

lemma not_expired_iff:
  "timestamp_expired False now ts = Some False \<longleftrightarrow>
   uint (now - ts) \<le> 300 \<or> uint (ts - now) \<le> 300 \<or> ts = now + 2 ^ 63"
  unfolding far_timestamp using abs_window [of "now - ts"]
  by (auto simp: timestamp_expired_def i64_sub_def i64_abs_def not_less)

lemma uint_diff_u64: "uint (a - b :: u64) = (if uint b \<le> uint a then uint a - uint b else uint a - uint b + 2 ^ 64)"
proof -
  obtain x y where xy: "uint a = x" "uint b = y" "0 \<le> x" "x < 2 ^ 64" "0 \<le> y" "y < 2 ^ 64"
    using uint_bounded [of a] uint_bounded [of b] by simp
  have "(x - y) mod 2 ^ 64 = (if y \<le> x then x - y else x - y + 2 ^ 64)"
  proof (cases "y \<le> x")
    case False
    with xy have "(x - y) mod 2 ^ 64 = x - y + 2 ^ 64"
      by (intro int_mod_pos_eq [where q = "- 1"]) simp_all
    with False show ?thesis by simp
  qed (use xy in simp)
  then show ?thesis by (simp add: uint_word_ariths xy)
qed

lemma checked_None_iff:
  assumes "uint now < 2 ^ 63"
  shows "timestamp_expired True now ts = None \<longleftrightarrow> 2 ^ 63 \<le> uint ts \<and> uint ts \<le> 2 ^ 63 + uint now"
proof -
  obtain x y where xy: "uint now = x" "uint ts = y" "0 \<le> x" "x < 2 ^ 63" "0 \<le> y" "y < 2 ^ 64"
    using uint_bounded [of ts] assms by simp
  then show ?thesis
    by (simp add: timestamp_expired_def i64_sub_def i64_abs_def sint_u64 uint_diff_u64)
qed

lemma checked_Some:
  assumes "timestamp_expired True now ts = Some b"
  shows "timestamp_expired False now ts = Some b"
  using assms by (auto simp: timestamp_expired_def i64_sub_def i64_abs_def split: if_splits)

section \<open>The wire format\<close>

text \<open>
  A request on the wire: its fields, then the hash of all the bytes before it. The address must be
  one that \<open>Address::encode\<close> accepts, for verification encodes it again.
\<close>

inductive wire_request :: "vision_env \<Rightarrow> vision_request \<Rightarrow> bytes \<Rightarrow> bool" for env where
  wire_requestI: "wire_address a aw \<Longrightarrow> (\<And>p. a \<noteq> Domain [] p) \<Longrightarrow> length pw = 56 \<Longrightarrow>
    list_all is_ascii_hexdigit pw \<Longrightarrow> base = [0xFE, 0x01, as_u8 c] @ aw @ to_be (ts :: u64) @ pw \<Longrightarrow>
    wire_request env \<lparr>v_magic = 0xFE, v_version = 0x01, v_command = c, v_address = a,
      v_timestamp = ts, v_password_hash = pw, v_integrity_hash = sha224 env base\<rparr>
      (base @ sha224 env base)"

definition digest_size :: "vision_env \<Rightarrow> bool" where
  "digest_size env \<longleftrightarrow> (\<forall>m. length (sha224 env m) = 28)"

lemma view_u64 [wire_simps]:
  "view_int eof 8 (to_be (t :: u64) @ bs, fin) = (Ready (Inr t), (bs, fin))"
  by (simp add: view_int_def await_def view_exact_append)

lemma vision_rest_wire:
  assumes "wire_address a aw" and "\<And>p. a \<noteq> Domain [] p" and "length pw = 56"
    and "list_all is_ascii_hexdigit pw" and "length h = 28"
    and "unix_clock env = Some now"
  shows "vision_read_rest env (view_reader eof k) magic version c a
      (to_be (ts :: u64) @ pw @ h @ rest, fin) =
    (case timestamp_expired (overflow_checks env) now ts of
       None \<Rightarrow> (Ready (Inr None), (rest, fin))
     | Some True \<Rightarrow> (Ready (Inl (Protocol (ascii ''Timestamp expired''))), (rest, fin))
     | Some False \<Rightarrow>
         if h = sha224 env ([magic, version, as_u8 c] @ aw @ to_be ts @ pw) then
           (Ready (Inr (Some \<lparr>v_magic = magic, v_version = version, v_command = c, v_address = a,
              v_timestamp = ts, v_password_hash = pw, v_integrity_hash = h\<rparr>)), (rest, fin))
         else (Ready (Inl (Protocol (ascii ''Vision integrity check failed''))), (rest, fin)))"
proof -
  have "encode a = Inr aw" using assms(1,2) by (rule wire_encode)
  with assms(3-6) show ?thesis
    by (auto simp: vision_read_rest_def vision_consts wire_simps current_unix_timestamp_def
        verify_integrity_def encoded_without_integrity_hash_def compute_hash_def
        simp del: as_u8.simps split: option.splits bool.splits)
qed

lemma view_vision_wire:
  assumes "wire_request env r w" and "digest_size env" and "unix_clock env = Some now"
  shows "vision_read_from env (view_reader eof k) (w @ rest, fin) =
    (case timestamp_expired (overflow_checks env) now (v_timestamp r) of
       None \<Rightarrow> (Ready (Inr None), (rest, fin))
     | Some True \<Rightarrow> (Ready (Inl (Protocol (ascii ''Timestamp expired''))), (rest, fin))
     | Some False \<Rightarrow> (Ready (Inr (Some r)), (rest, fin)))"
  using assms(1)
proof cases
  case (wire_requestI a aw pw base c ts)
  have "length (sha224 env base) = 28" using assms(2) by (simp add: digest_size_def)
  note rest = vision_rest_wire [OF wire_requestI(3-6) this assms(3), where eof = eof and k = k and
      magic = "0xFE" and version = "0x01" and c = c and ts = ts and rest = rest and fin = fin]
  have "vision_read_from env (view_reader eof k) (w @ rest, fin) =
      vision_read_rest env (view_reader eof k) 0xFE 0x01 c a
        (to_be ts @ pw @ sha224 env base @ rest, fin)"
    using wire_requestI
    by (simp add: vision_read_from_def vision_consts wire_simps await_Ready_Inr view_read_wire
        del: as_u8.simps)
  with rest wire_requestI show ?thesis
    by (auto split: option.splits bool.splits simp del: as_u8.simps)
qed

text \<open>A request with any other hash, if it is in time.\<close>

lemma view_vision_tampered:
  assumes "wire_address a aw" and "\<And>p. a \<noteq> Domain [] p" and "length pw = 56"
    and "list_all is_ascii_hexdigit pw" and "base = [0xFE, 0x01, as_u8 c] @ aw @ to_be (ts :: u64) @ pw"
    and "length h = 28" and "h \<noteq> sha224 env base" and "unix_clock env = Some now"
    and "timestamp_expired (overflow_checks env) now ts = Some False"
  shows "vision_read_from env (view_reader eof k) (base @ h @ rest, fin) =
    (Ready (Inl (Protocol (ascii ''Vision integrity check failed''))), (rest, fin))"
proof -
  have "vision_read_from env (view_reader eof k) (base @ h @ rest, fin) =
      vision_read_rest env (view_reader eof k) 0xFE 0x01 c a (to_be ts @ pw @ h @ rest, fin)"
    using assms(1,5)
    by (simp add: vision_read_from_def vision_consts wire_simps await_Ready_Inr view_read_wire
        del: as_u8.simps)
  with vision_rest_wire [OF assms(1-4,6,8), where eof = eof and k = k and magic = "0xFE" and
      version = "0x01" and c = c and ts = ts and rest = rest and fin = fin] assms(5,7,9)
  show ?thesis by (simp del: as_u8.simps)
qed

lemma vision_rest_shape:
  assumes "vision_read_rest env (view_reader eof k) magic version c a (bs, fin) = (Ready (Inr (Some r)), v)"
  shows "(\<exists>q pw h rest. length q = 8 \<and> length pw = 56 \<and> list_all is_ascii_hexdigit pw \<and>
      length h = 28 \<and> bs = q @ pw @ h @ rest) \<and> (\<forall>p. a \<noteq> Domain [] p) \<and> unix_clock env \<noteq> None"
proof -
  have "\<exists>q pw h rest (ts :: u64) now u. length q = 8 \<and> length pw = 56 \<and> list_all is_ascii_hexdigit pw \<and>
      length h = 28 \<and> bs = q @ pw @ h @ rest \<and> current_unix_timestamp env = Inr now \<and>
      verify_integrity env \<lparr>v_magic = magic, v_version = version, v_command = c, v_address = a,
        v_timestamp = ts, v_password_hash = pw, v_integrity_hash = h\<rparr> = Inr u"
    using assms unfolding vision_read_rest_def vision_consts view_reader_sel Let_def
    apply (simp only: read_Inr_iffs lift_res_Inr_iff)
    apply clarify
    apply (simp add: read_Inr_iffs lift_res_Inr_iff split: if_splits option.splits)
    apply blast
    done
  then show ?thesis
    by (auto simp: verify_integrity_def encoded_without_integrity_hash_def bind_res_Inr_iff
        current_unix_timestamp_def split: option.splits)
qed

lemma vision_head_shape:
  assumes "vision_read_from env (view_reader eof k) (bs, fin) = (Ready (Inr x), v)"
  shows "\<exists>c a aw tail. bs = [0xFE, 0x01, as_u8 c] @ aw @ tail \<and> wire_address a aw \<and>
    vision_read_rest env (view_reader eof k) 0xFE 0x01 c a (tail, fin) = (Ready (Inr x), v)"
  using assms unfolding vision_read_from_def vision_consts view_reader_sel
  apply (simp only: read_Inr_iffs)
  apply clarify
  apply (simp add: read_Inr_iffs lift_res_Inr_iff command_from_u8_Inr_iff view_read_from_Inr_iff
      length_Suc_conv split: if_splits)
  apply clarify
  apply simp
  apply blast
  done

lemma view_vision_Some_iff:
  assumes "digest_size env" and "unix_clock env = Some now"
  shows "vision_read_from env (view_reader eof k) (bs, fin) = (Ready (Inr (Some r)), v) \<longleftrightarrow>
    (\<exists>w rest. wire_request env r w \<and> bs = w @ rest \<and> v = (rest, fin) \<and>
       timestamp_expired (overflow_checks env) now (v_timestamp r) = Some False)"
proof
  assume "vision_read_from env (view_reader eof k) (bs, fin) = (Ready (Inr (Some r)), v)"
  from vision_head_shape [OF this] obtain c a aw tail where
    bs: "bs = [0xFE, 0x01, as_u8 c] @ aw @ tail" and wire: "wire_address a aw" and
    read: "vision_read_rest env (view_reader eof k) 0xFE 0x01 c a (tail, fin) = (Ready (Inr (Some r)), v)"
    by blast
  from vision_rest_shape [OF read] obtain q pw h rest where
    parts: "length q = 8" "length pw = 56" "list_all is_ascii_hexdigit pw" "length h = 28"
      "tail = q @ pw @ h @ rest" and named: "\<And>p. a \<noteq> Domain [] p" by blast
  define ts where "ts = (from_be q :: u64)"
  have "q = to_be ts" using parts(1) by (simp add: ts_def to_be_from_be)
  with parts(5) have tail: "tail = to_be ts @ pw @ h @ rest" by simp
  note rest = vision_rest_wire [OF wire named parts(2-4) assms(2), where eof = eof and k = k and
      magic = "0xFE" and version = "0x01" and c = c and ts = ts and rest = rest and fin = fin]
  let ?base = "[0xFE, 0x01, as_u8 c] @ aw @ to_be ts @ pw"
  from read [unfolded tail rest] have
    "timestamp_expired (overflow_checks env) now ts = Some False" "h = sha224 env ?base"
    "v = (rest, fin)" "r = \<lparr>v_magic = 0xFE, v_version = 0x01, v_command = c, v_address = a,
      v_timestamp = ts, v_password_hash = pw, v_integrity_hash = sha224 env ?base\<rparr>"
    by (auto split: option.splits bool.splits if_splits simp del: as_u8.simps)
  moreover from wire_requestI [OF wire named parts(2,3) refl, of env c ts]
  have "wire_request env \<lparr>v_magic = 0xFE, v_version = 0x01, v_command = c, v_address = a,
      v_timestamp = ts, v_password_hash = pw, v_integrity_hash = sha224 env ?base\<rparr>
      (?base @ sha224 env ?base)" .
  ultimately show "\<exists>w rest. wire_request env r w \<and> bs = w @ rest \<and> v = (rest, fin) \<and>
       timestamp_expired (overflow_checks env) now (v_timestamp r) = Some False"
    by (intro exI [of _ "?base @ sha224 env ?base"] exI [of _ rest])
      (simp add: bs tail del: as_u8.simps)
qed (auto simp: view_vision_wire assms)

lemma view_vision_no_clock:
  "unix_clock env = None \<Longrightarrow>
   vision_read_from env (view_reader eof k) (bs, fin) \<noteq> (Ready (Inr (Some r)), v)"
  by (auto dest!: vision_head_shape vision_rest_shape)

context byte_stream
begin

lemma sim_option_case [sim_intros]:
  "simulates vw m m' \<Longrightarrow> (\<And>x. simulates vw (f x) (f' x)) \<Longrightarrow>
   simulates vw (case z of None \<Rightarrow> m | Some x \<Rightarrow> f x) (case z of None \<Rightarrow> m' | Some x \<Rightarrow> f' x)"
  by (cases z) simp_all

lemma sim_vision_read_from [sim_intros]:
  "simulates vw (vision_read_from env R) (vision_read_from env (view_reader eof k))"
  unfolding vision_read_from_def vision_read_rest_def view_reader_sel Let_def
  by (intro sim_intros exact_ok u8_ok u64_ok sim_address_read_from)

end

section \<open>Encoding\<close>

lemma near_not_expired:
  assumes "uint now < 2 ^ 62" and "\<bar>uint now - uint ts\<bar> \<le> 300"
  shows "timestamp_expired checks now ts = Some False"
proof -
  obtain x y where xy: "uint now = x" "uint ts = y" "0 \<le> x" "x < 2 ^ 62" "0 \<le> y"
      "\<bar>x - y\<bar> \<le> 300"
    using assms by simp
  then have "uint (now - ts) \<le> 300 \<or> uint (ts - now) \<le> 300"
    by (simp add: uint_diff_u64) arith
  then have wrapped: "timestamp_expired False now ts = Some False"
    unfolding not_expired_iff by blast
  from xy have "timestamp_expired True now ts \<noteq> None"
    by (simp add: checked_None_iff) arith
  then obtain b where b: "timestamp_expired True now ts = Some b" by blast
  from checked_Some [OF b] wrapped b show ?thesis by (cases checks) simp_all
qed

lemma wire_part_named: "encode a = Inr w \<Longrightarrow> wire_part a \<noteq> Domain [] p"
  by (cases a rule: wire_part.cases) auto

lemma wire_request_env:
  "wire_request env r w \<Longrightarrow> sha224 env' = sha224 env \<Longrightarrow> wire_request env' r w"
  by (erule wire_request.cases) (metis wire_requestI)

lemma vision_encode_wire:
  assumes "vision_request_new env c a pw = Inr r" and "vision_encode env r = Inr w"
    and "address_ok a"
  shows "wire_request env (r\<lparr>v_address := wire_part a\<rparr>) w"
proof -
  from assms(1) obtain ts aw where pw: "length pw = 56" "list_all is_ascii_hexdigit pw"
    and aw: "encode a = Inr aw"
    and r: "r = \<lparr>v_magic = 0xFE, v_version = 0x01, v_command = c, v_address = a,
      v_timestamp = ts, v_password_hash = pw,
      v_integrity_hash = sha224 env ([0xFE, 0x01, as_u8 c] @ aw @ to_be ts @ pw)\<rparr>"
    by (auto simp: vision_request_new_def parse_password_hash_def vision_consts bind_res_Inr_iff
        with_integrity_hash_def encoded_without_integrity_hash_def compute_hash_def
        simp del: as_u8.simps split: if_splits)
  let ?base = "[0xFE, 0x01, as_u8 c] @ aw @ to_be ts @ pw"
  have "w = ?base @ sha224 env ?base"
    using assms(2) aw r
    by (auto simp: vision_encode_def with_integrity_hash_def encoded_without_integrity_hash_def
        encode_with_integrity_hash_def compute_hash_def bind_res_Inr_iff simp del: as_u8.simps)
  moreover from encode_wire [OF aw assms(3)] have "wire_address (wire_part a) aw" .
  from wire_requestI [OF this wire_part_named [OF aw] pw refl, of env c ts]
  have "wire_request env (r\<lparr>v_address := wire_part a\<rparr>) (?base @ sha224 env ?base)"
    by (simp add: r del: as_u8.simps)
  ultimately show ?thesis by simp
qed

section \<open>Properties\<close>

text \<open>
  C27. The timestamp test, for a clock before the year 292 billion. Without overflow checks (release
  builds) it accepts the window of 300 seconds around the current time, and one stray value, the
  current time plus \<open>2 ^ 63\<close>, whose difference is the one number \<open>abs\<close> cannot negate. With overflow
  checks (debug builds) it panics exactly on the \<open>now + 1\<close> values from \<open>2 ^ 63\<close> on.
\<close>

theorem timestamp_window:
  assumes "uint now < 2 ^ 63"
  shows "(timestamp_expired False now ts = Some False \<longleftrightarrow>
      uint (now - ts) \<le> 300 \<or> uint (ts - now) \<le> 300 \<or> ts = now + 2 ^ 63) \<and>
    (timestamp_expired True now ts = None \<longleftrightarrow> 2 ^ 63 \<le> uint ts \<and> uint ts \<le> 2 ^ 63 + uint now)"
  by (simp add: not_expired_iff checked_None_iff [OF assms])

theorem timestamp_window_witness:
  "timestamp_expired False 1700000000 (1700000000 + 2 ^ 63) = Some False \<and>
   timestamp_expired True 1700000000 (1700000000 + 2 ^ 63) = None"
  using timestamp_window [of 1700000000 "1700000000 + 2 ^ 63"] by simp

text \<open>
  C24. Over any reader with the documented behaviour, \<open>VisionAuthRequest::read_from\<close> returns a
  request exactly when the stream starts with its wire form, the trailing hash being that of all
  bytes before it, and its timestamp passes the test; it then leaves the stream behind it.
\<close>

theorem vision_reader_exact:
  assumes "byte_stream_laws R vw eof" and "digest_size env" and "unix_clock env = Some now"
    and "vw s = (bs, fin)"
  shows "(\<exists>t. vision_read_from env R s = (Ready (Inr (Some r)), t) \<and> vw t = (rest, fin)) \<longleftrightarrow>
    (\<exists>w. wire_request env r w \<and> bs = w @ rest) \<and>
    timestamp_expired (overflow_checks env) now (v_timestamp r) = Some False"
proof -
  have "simulates vw (vision_read_from env R) (vision_read_from env (view_reader eof 0))"
    by (rule byte_stream.sim_vision_read_from [OF byte_stream.intro [OF assms(1)]])
  from simulates_Ready_Inr_iff [OF this, of s "Some r" "(rest, fin)"]
  show ?thesis by (auto simp: assms(4) view_vision_Some_iff [OF assms(2,3)])
qed

text \<open>
  C26. Round trip: a request built and encoded at one time is read back by a server with the same
  hash function whose clock is at most 300 seconds off, whatever follows it.
\<close>

theorem vision_roundtrip:
  assumes "byte_stream_laws R vw eof" and "digest_size env'"
    and "vision_request_new env c a pw = Inr r" and "vision_encode env r = Inr w" and "address_ok a"
    and "sha224 env' = sha224 env" and "unix_clock env' = Some now" and "uint now < 2 ^ 62"
    and "\<bar>uint now - uint (v_timestamp r)\<bar> \<le> 300" and "vw s = (w @ rest, fin)"
  shows "\<exists>t. vision_read_from env' R s = (Ready (Inr (Some (r\<lparr>v_address := wire_part a\<rparr>))), t) \<and>
    vw t = (rest, fin)"
proof -
  have sim: "simulates vw (vision_read_from env' R) (vision_read_from env' (view_reader eof 0))"
    by (rule byte_stream.sim_vision_read_from [OF byte_stream.intro [OF assms(1)]])
  have wire: "wire_request env' (r\<lparr>v_address := wire_part a\<rparr>) w"
    using vision_encode_wire [OF assms(3-5)] assms(6) by (rule wire_request_env)
  have "timestamp_expired (overflow_checks env') now (v_timestamp (r\<lparr>v_address := wire_part a\<rparr>)) =
      Some False"
    using near_not_expired [OF assms(8,9)] by simp
  with view_vision_wire [OF wire assms(2,7), of eof 0 rest fin]
  have "vision_read_from env' (view_reader eof 0) (vw s) =
      (Ready (Inr (Some (r\<lparr>v_address := wire_part a\<rparr>))), (rest, fin))"
    by (simp add: assms(10))
  then show ?thesis using simulates_Ready_Inr_iff [OF sim, of s] by blast
qed

text \<open>
  C25. Vision authentication: it returns a command and an address exactly when a well-formed request
  with a valid integrity hash and timestamp has arrived, carrying them and a password hash that is
  in the list up to the case of its hex digits; and it always returns, a request that is incomplete
  when the timeout elapses being a timeout.
\<close>

theorem vision_authenticate_exact:
  assumes "byte_stream_laws R vw eof" and "digest_size env" and "unix_clock env = Some now"
    and "vw s = (bs, fin)"
  shows "((\<exists>t. authenticate env R pws s = (Ready (Inr (Some (c, a))), t)) \<longleftrightarrow>
      (\<exists>r w rest. wire_request env r w \<and> bs = w @ rest \<and> v_command r = c \<and> v_address r = a \<and>
         timestamp_expired (overflow_checks env) now (v_timestamp r) = Some False \<and>
         list_ex (\<lambda>p. eq_ignore_ascii_case p (v_password_hash r)) pws)) \<and>
    fst (authenticate env R pws s) \<noteq> Pending"
proof -
  have sim: "simulates vw (vision_read_from env R) (vision_read_from env (view_reader eof 0))"
    by (rule byte_stream.sim_vision_read_from [OF byte_stream.intro [OF assms(1)]])
  have read: "(\<exists>t. vision_read_from env R s = (Ready (Inr (Some r)), t)) \<longleftrightarrow>
      (\<exists>w rest. wire_request env r w \<and> bs = w @ rest \<and>
        timestamp_expired (overflow_checks env) now (v_timestamp r) = Some False)" for r
  proof -
    have "(\<exists>t. vision_read_from env R s = (Ready (Inr (Some r)), t)) \<longleftrightarrow>
        (\<exists>v t. vision_read_from env R s = (Ready (Inr (Some r)), t) \<and> vw t = v)" by blast
    also have "\<dots> \<longleftrightarrow> (\<exists>v. vision_read_from env (view_reader eof 0) (bs, fin) = (Ready (Inr (Some r)), v))"
      by (simp only: simulates_Ready_Inr_iff [OF sim] assms(4))
    finally show ?thesis by (auto simp: view_vision_Some_iff [OF assms(2,3)])
  qed
  have utf8: "utf8_valid (v_password_hash r)" if "wire_request env r w" for r w
    using that by cases (simp add: utf8_valid_hexdigits)
  have "(\<exists>t. authenticate env R pws s = (Ready (Inr (Some (c, a))), t)) \<longleftrightarrow>
      (\<exists>r t. vision_read_from env R s = (Ready (Inr (Some r)), t) \<and> utf8_valid (v_password_hash r) \<and>
         v_command r = c \<and> v_address r = a \<and>
         list_ex (\<lambda>p. eq_ignore_ascii_case p (v_password_hash r)) pws)"
    by (auto simp: authenticate_def split: prod.splits poll.splits sum.splits option.splits if_splits)
  also have "\<dots> \<longleftrightarrow> (\<exists>r w rest. wire_request env r w \<and> bs = w @ rest \<and> v_command r = c \<and>
      v_address r = a \<and> timestamp_expired (overflow_checks env) now (v_timestamp r) = Some False \<and>
      list_ex (\<lambda>p. eq_ignore_ascii_case p (v_password_hash r)) pws)"
    using read utf8 by metis
  finally show ?thesis
    by (auto simp: authenticate_def split: prod.splits poll.splits sum.splits option.splits if_splits)
qed

text \<open>A request under a constant digest, and the three theorems on it.\<close>

definition demo_vision_env :: "u64 \<Rightarrow> vision_env" where
  "demo_vision_env now = \<lparr>sha224 = \<lambda>_. replicate 28 7, unix_clock = Some now, overflow_checks = False\<rparr>"

definition demo_request :: vision_request where
  "demo_request = \<lparr>v_magic = 0xFE, v_version = 0x01, v_command = Connect,
     v_address = Domain [0x61] 80, v_timestamp = 1000, v_password_hash = replicate 56 0x61,
     v_integrity_hash = replicate 28 7\<rparr>"

definition demo_request_bytes :: bytes where
  "demo_request_bytes = [0xFE, 0x01, 1, 3, 1, 0x61, 0, 80, 0, 0, 0, 0, 0, 0, 3, 0xE8] @
     replicate 56 0x61 @ replicate 28 7"

lemma demo_new: "vision_request_new (demo_vision_env 1000) Connect (Domain [0x61] 80) (replicate 56 0x61) =
    Inr demo_request"
  by (simp add: vision_request_new_def demo_vision_env_def demo_request_def parse_password_hash_def
      vision_consts is_ascii_hexdigit_def current_unix_timestamp_def with_integrity_hash_def
      encoded_without_integrity_hash_def compute_hash_def)

lemma demo_encode: "vision_encode (demo_vision_env 1000) demo_request = Inr demo_request_bytes"
  by (simp add: vision_encode_def demo_vision_env_def demo_request_def demo_request_bytes_def
      with_integrity_hash_def encoded_without_integrity_hash_def compute_hash_def
      encode_with_integrity_hash_def to_be_def upt_rec)

lemma demo_digest: "digest_size (demo_vision_env now)"
  by (simp add: digest_size_def demo_vision_env_def)

lemma demo_clock: "unix_clock (demo_vision_env now) = Some now"
  by (simp add: demo_vision_env_def)

lemma demo_wire_request: "wire_request (demo_vision_env now) demo_request demo_request_bytes"
proof -
  have "address_ok (Domain [0x61] 80)" by simp
  from vision_encode_wire [OF demo_new demo_encode this]
  have "wire_request (demo_vision_env 1000) demo_request demo_request_bytes"
    by (simp add: demo_request_def)
  then show ?thesis by (rule wire_request_env) (simp add: demo_vision_env_def)
qed

theorem vision_reader_exact_witness:
  "\<exists>t. vision_read_from (demo_vision_env 1200) (view_reader early_eof 0)
      (demo_request_bytes @ [9], Open) = (Ready (Inr (Some demo_request)), t) \<and> id t = ([9], Open)"
proof -
  have "timestamp_expired (overflow_checks (demo_vision_env 1200)) 1200 (v_timestamp demo_request) =
      Some False"
    by (rule near_not_expired) (simp_all add: demo_request_def)
  moreover have view: "id (demo_request_bytes @ [9], Open) = (demo_request_bytes @ [9], Open)" by simp
  ultimately show ?thesis
    using demo_wire_request [of 1200] vision_reader_exact [OF slice_stream.laws [of 0]
      demo_digest [of 1200] demo_clock [of 1200] view, of demo_request "[9]"] by blast
qed

theorem vision_roundtrip_witness:
  "\<exists>t. vision_read_from (demo_vision_env 1200) (view_reader early_eof 0)
      (demo_request_bytes @ [9], Open) =
      (Ready (Inr (Some (demo_request\<lparr>v_address := wire_part (Domain [0x61] 80)\<rparr>))), t) \<and>
    id t = ([9], Open)"
  by (rule vision_roundtrip [OF slice_stream.laws demo_digest demo_new demo_encode,
        where now = 1200]) (simp_all add: demo_vision_env_def demo_request_def)

theorem vision_authenticate_exact_witness:
  "\<exists>t. authenticate (demo_vision_env 1200) (view_reader early_eof 0) [replicate 56 0x41]
      (demo_request_bytes @ [9], Open) = (Ready (Inr (Some (Connect, Domain [0x61] 80))), t)"
proof -
  have time: "timestamp_expired (overflow_checks (demo_vision_env 1200)) 1200 (v_timestamp demo_request) =
      Some False"
    by (rule near_not_expired) (simp_all add: demo_request_def)
  have "list_ex (\<lambda>p. eq_ignore_ascii_case p (v_password_hash demo_request)) [replicate 56 0x41]"
    by (simp add: demo_request_def eq_ignore_ascii_case_def to_ascii_lowercase_def)
  moreover have "v_command demo_request = Connect" "v_address demo_request = Domain [0x61] 80"
    by (simp_all add: demo_request_def)
  moreover have view: "id (demo_request_bytes @ [9], Open) = (demo_request_bytes @ [9], Open)" by simp
  ultimately show ?thesis
    using time demo_wire_request [of 1200] vision_authenticate_exact [OF slice_stream.laws [of 0]
      demo_digest [of 1200] demo_clock [of 1200] view, of "[replicate 56 0x41]" Connect
      "Domain [0x61] 80"] by blast
qed

end
