(* ===== verification/StateMachines.thy ===== *)
theory StateMachines
  imports Splices Vision
begin

text \<open>
  src/reality/state\_machine.rs: the connection state machine of the REALITY path and
  \<open>handle_authenticated_connection\<close>. A transition takes the machine by value; one that fails drops it.
\<close>

section \<open>The code\<close>

datatype connection_state =
    Handshake | Authenticating | Authenticated | Forwarding | Fallback | Closed

record 's machine =
  m_stream :: "'s option"
  m_state :: connection_state
  m_auth_result :: "(command \<times> address) option"
  m_fallback_address :: "address option"

definition machine_new :: "'s \<Rightarrow> 's machine" where
  "machine_new stream = \<lparr>m_stream = Some stream, m_state = Handshake, m_auth_result = None,
     m_fallback_address = None\<rparr>"

definition set_fallback :: "address \<Rightarrow> 's machine \<Rightarrow> 's machine" where
  "set_fallback address m = m\<lparr>m_fallback_address := Some address\<rparr>"

definition machine_state :: "'s machine \<Rightarrow> connection_state" where
  "machine_state m = m_state m"

definition machine_into_stream :: "'s machine \<Rightarrow> 's option" where
  "machine_into_stream m = m_stream m"

definition get_auth_result :: "'s machine \<Rightarrow> (command \<times> address) option" where
  "get_auth_result m = m_auth_result m"

text \<open>
  The result of the transition, and the machine as it is when it is returned or dropped. The
  authentication of \<open>VisionProtocol\<close> is an argument; its inner \<^const>\<open>None\<close> is a panic.
\<close>

definition transition_to_authenticating ::
  "('s, trojan_error, (command \<times> address) option) io \<Rightarrow> 's machine \<Rightarrow>
   (trojan_error + 's machine option) poll \<times> 's machine" where
  "transition_to_authenticating vision_authenticate m =
     (if m_state m \<noteq> Handshake then
        (Ready (Inl (Protocol (ascii ''Invalid state transition''))), m)
      else
        (case m_stream m of
           None \<Rightarrow> (Ready (Inl (Protocol (ascii ''Missing stream in state machine''))), m)
         | Some stream \<Rightarrow>
             (let m = m\<lparr>m_stream := None\<rparr> in
              case vision_authenticate stream of
                (Ready (Inr (Some (command, address))), stream) \<Rightarrow>
                  (let m = m\<lparr>m_stream := Some stream, m_state := Authenticated,
                     m_auth_result := Some (command, address)\<rparr>
                   in (Ready (Inr (Some m)), m))
              | (Ready (Inr None), stream) \<Rightarrow> (Ready (Inr None), m)
              | (Ready (Inl e), stream) \<Rightarrow>
                  (let m = m\<lparr>m_state := (if m_fallback_address m \<noteq> None then Fallback else Closed)\<rparr>
                   in (Ready (Inl e), m\<lparr>m_stream := Some stream\<rparr>))
              | (Pending, stream) \<Rightarrow> (Pending, m))))"

text \<open>\<open>timeout(...).await.map_err(|_| Timeout)?\<close> and then \<open>?\<close> on the connection.\<close>

definition connect_or_timeout ::
  "('s, 't) tunnel_ops \<Rightarrow> nanos \<Rightarrow> address \<Rightarrow> 't res" where
  "connect_or_timeout ops connect_timeout address =
     (case connect_target ops connect_timeout address of
        Elapsed \<Rightarrow> Inl Timeout
      | InTime r \<Rightarrow> from_io r)"

definition transition_to_forwarding ::
  "('s, 't) tunnel_ops \<Rightarrow> address \<Rightarrow> nanos \<Rightarrow> 's machine \<Rightarrow> ('s \<times> 't) res" where
  "transition_to_forwarding ops target_address connect_timeout m =
     (if m_state m \<noteq> Authenticated then
        Inl (Protocol (ascii ''Cannot forward without authentication''))
      else
        (case m_stream m of
           None \<Rightarrow> Inl (Protocol (ascii ''Missing stream in authenticated state''))
         | Some stream \<Rightarrow>
             bind_res (connect_or_timeout ops connect_timeout target_address) (\<lambda>remote.
             Inr (stream, remote))))"

text \<open>The streams it leaves: the client's, and the target's when it was connected to.\<close>

definition handle_authenticated_connection ::
  "('s, 't) tunnel_ops \<Rightarrow> ('s, 't, 'c, 'j) splice_ops \<Rightarrow> 'j splice_turn list \<Rightarrow> 's \<Rightarrow> command \<Rightarrow>
   address \<Rightarrow> nanos \<Rightarrow> ('s, 't, unit) handled" where
  "handle_authenticated_connection ops copies turns stream command address connect_timeout =
     (case command of
        Connect \<Rightarrow>
          (case connect_or_timeout ops connect_timeout address of
             Inl e \<Rightarrow> (Ready (Inl e), stream, None)
           | Inr remote \<Rightarrow>
               (case tcp_splice copies turns stream remote of
                  (Ready (Inr total_bytes), stream, remote) \<Rightarrow> (Ready (Inr ()), stream, Some remote)
                | (Ready (Inl e), stream, remote) \<Rightarrow> (Ready (Inl e), stream, Some remote)
                | (Pending, stream, remote) \<Rightarrow> (Pending, stream, Some remote)))
      | UdpAssociate \<Rightarrow>
          (Ready (Inl (Protocol (ascii ''UDP not supported in direct mode''))), stream, None))"

section \<open>The machines a program can hold\<close>

text \<open>
  The fields are private: a machine comes from \<open>new\<close>, from \<open>set_fallback\<close>, or from a transition
  that succeeded.
\<close>

inductive held :: "('s, trojan_error, (command \<times> address) option) io \<Rightarrow> 's \<Rightarrow> 's machine \<Rightarrow> bool"
  for auth :: "('s, trojan_error, (command \<times> address) option) io" and s0 :: 's where
  held_new: "held auth s0 (machine_new s0)"
| held_fallback: "held auth s0 m \<Longrightarrow> held auth s0 (set_fallback a m)"
| held_authenticated: "held auth s0 m \<Longrightarrow>
    transition_to_authenticating auth m = (Ready (Inr (Some m')), m'') \<Longrightarrow> held auth s0 m'"

inductive_cases held_cases: "held auth s0 m"

lemma authenticating_ok:
  assumes "transition_to_authenticating v m = (Ready (Inr (Some m')), m'')"
  obtains s c a s' where "m_state m = Handshake" "m_stream m = Some s"
    "v s = (Ready (Inr (Some (c, a))), s')"
    "m' = m\<lparr>m_stream := Some s', m_state := Authenticated, m_auth_result := Some (c, a)\<rparr>"
  using assms
  by (auto simp: transition_to_authenticating_def Let_def
      split: if_splits option.splits prod.splits poll.splits sum.splits)

lemma held_invariant:
  "held auth s0 m \<Longrightarrow>
   m_state m = Handshake \<and> m_stream m = Some s0 \<and> m_auth_result m = None \<or>
   (\<exists>c a s'. m_state m = Authenticated \<and> m_stream m = Some s' \<and> m_auth_result m = Some (c, a) \<and>
      auth s0 = (Ready (Inr (Some (c, a))), s'))"
proof (induction rule: held.induct)
  case held_new
  show ?case by (simp add: machine_new_def)
next
  case (held_fallback m a)
  then show ?case by (simp add: set_fallback_def)
next
  case (held_authenticated m m' m'')
  from held_authenticated.hyps(2) show ?case
    by (rule authenticating_ok) (use held_authenticated.IH in auto)
qed

section \<open>Properties\<close>

text \<open>
  C29. Whatever a program does with it, a machine it holds is either fresh (in \<open>Handshake\<close>, with its
  original stream and no result) or authenticated (with the stream as authentication left it and
  the result of a successful authentication of the original stream). The states
  \<open>Authenticating\<close>, \<open>Forwarding\<close>, \<open>Fallback\<close> and \<open>Closed\<close> are never seen: a failed authentication
  returns its error and drops the machine with its stream, so there is nothing to fall back with.
\<close>

theorem machine_states:
  assumes "held auth s0 m"
  shows "(machine_state m = Handshake \<and> machine_into_stream m = Some s0 \<and> get_auth_result m = None \<or>
      (\<exists>c a s'. machine_state m = Authenticated \<and> machine_into_stream m = Some s' \<and>
         get_auth_result m = Some (c, a) \<and> auth s0 = (Ready (Inr (Some (c, a))), s'))) \<and>
    machine_state m \<notin> {Authenticating, Forwarding, Fallback, Closed}"
  using held_invariant [OF assms] 
  by (auto simp: machine_state_def machine_into_stream_def get_auth_result_def)

definition demo_machine :: "view machine" where
  "demo_machine = \<lparr>m_stream = Some ([9], Open), m_state = Authenticated,
     m_auth_result = Some (Connect, Domain [0x61] 80), m_fallback_address = Some (Domain [0x62] 81)\<rparr>"

lemma demo_machine_authenticates:
  "authenticate (demo_vision_env 1200) (view_reader early_eof 0) [replicate 56 0x61]
     (demo_request_bytes @ [9], Open) = (Ready (Inr (Some (Connect, Domain [0x61] 80))), ([9], Open))"
proof -
  have "timestamp_expired (overflow_checks (demo_vision_env 1200)) 1200 (v_timestamp demo_request) =
      Some False"
    by (rule near_not_expired) (simp_all add: demo_request_def)
  with view_vision_wire [OF demo_wire_request demo_digest demo_clock, of 1200 early_eof 0 "[9]" Open]
  have "vision_read_from (demo_vision_env 1200) (view_reader early_eof 0) (demo_request_bytes @ [9], Open) =
      (Ready (Inr (Some demo_request)), ([9], Open))" by simp
  moreover have "utf8_valid (v_password_hash demo_request)"
    by (rule utf8_valid_hexdigits) (simp add: demo_request_def is_ascii_hexdigit_def)
  moreover have "v_password_hash demo_request = replicate 56 0x61" "v_command demo_request = Connect"
    "v_address demo_request = Domain [0x61] 80"
    by (simp_all add: demo_request_def)
  ultimately show ?thesis by (simp add: authenticate_def)
qed

lemma demo_machine_held:
  "held (authenticate (demo_vision_env 1200) (view_reader early_eof 0) [replicate 56 0x61])
     (demo_request_bytes @ [9], Open) demo_machine"
proof (rule held_authenticated [OF held_fallback [OF held_new]])
  show "transition_to_authenticating
      (authenticate (demo_vision_env 1200) (view_reader early_eof 0) [replicate 56 0x61])
      (set_fallback (Domain [0x62] 81) (machine_new (demo_request_bytes @ [9], Open))) =
    (Ready (Inr (Some demo_machine)), demo_machine)"
    by (simp add: transition_to_authenticating_def set_fallback_def machine_new_def
        demo_machine_authenticates demo_machine_def Let_def)
qed

theorem machine_states_witness:
  "machine_state demo_machine \<notin> {Authenticating, Forwarding, Fallback, Closed}"
  using machine_states [OF demo_machine_held] by blast

text \<open>
  C28. Forwarding requires authentication: a machine over the Vision protocol forwards only if its
  stream started with a well-formed request that has a valid integrity hash, a timestamp that passes
  the test and the hash of a configured password; and it hands over the stream behind that request.
\<close>

theorem forwarding_requires_authentication:
  assumes "byte_stream_laws R vw eof" and "digest_size env" and "unix_clock env = Some now"
    and "held (authenticate env R pws) s0 m" and "vw s0 = (bs, fin)"
    and "transition_to_forwarding ops target_address d m = Inr (s, t)"
  shows "\<exists>r w rest. wire_request env r w \<and> bs = w @ rest \<and> vw s = (rest, fin) \<and>
    get_auth_result m = Some (v_command r, v_address r) \<and>
    timestamp_expired (overflow_checks env) now (v_timestamp r) = Some False \<and>
    (\<exists>p \<in> set pws. eq_ignore_ascii_case p (v_password_hash r))"
proof -
  from assms(6) have "m_state m = Authenticated" "m_stream m = Some s"
    by (auto simp: transition_to_forwarding_def bind_res_Inr_iff split: if_splits option.splits)
  with held_invariant [OF assms(4)] obtain c a where
    res: "m_auth_result m = Some (c, a)" "authenticate env R pws s0 = (Ready (Inr (Some (c, a))), s)"
    by auto
  then obtain r where read: "vision_read_from env R s0 = (Ready (Inr (Some r)), s)"
    and r: "v_command r = c" "v_address r = a"
      "list_ex (\<lambda>p. eq_ignore_ascii_case p (v_password_hash r)) pws"
    by (auto simp: authenticate_def split: prod.splits poll.splits sum.splits option.splits if_splits)
  have sim: "simulates vw (vision_read_from env R) (vision_read_from env (view_reader eof 0))"
    by (rule byte_stream.sim_vision_read_from [OF byte_stream.intro [OF assms(1)]])
  have "vision_read_from env (view_reader eof 0) (bs, fin) = (Ready (Inr (Some r)), vw s)"
    using simulates_Ready_Inr_iff [OF sim, of s0 "Some r" "vw s"] read assms(5) by auto
  then obtain w rest where "wire_request env r w" "bs = w @ rest" "vw s = (rest, fin)"
    "timestamp_expired (overflow_checks env) now (v_timestamp r) = Some False"
    by (auto simp: view_vision_Some_iff [OF assms(2,3)])
  with res(1) r show ?thesis
    by (auto simp: get_auth_result_def list_ex_iff)
qed

definition one_target :: "(view, duplex) tunnel_ops" where
  "one_target = \<lparr>tcp_connect = \<lambda>a. Pending,
     timed_connect_addr = \<lambda>d a. Elapsed,
     timed_connect_str = \<lambda>d a. InTime (Inr \<lparr>d_in = ([], Open), d_sent = []\<rparr>),
     write_all = duplex_write_all, copy_bidirectional = \<lambda>c t. (Pending, c, t)\<rparr>"

theorem forwarding_requires_authentication_witness:
  "\<exists>r w rest. wire_request (demo_vision_env 1200) r w \<and> demo_request_bytes @ [9] = w @ rest \<and>
    id ([9], Open) = (rest, Open) \<and>
    get_auth_result demo_machine = Some (v_command r, v_address r) \<and>
    timestamp_expired (overflow_checks (demo_vision_env 1200)) 1200 (v_timestamp r) = Some False \<and>
    (\<exists>p \<in> set [replicate 56 0x61]. eq_ignore_ascii_case p (v_password_hash r))"
proof -
  have "transition_to_forwarding one_target (Domain [0x61] 80) 5 demo_machine =
      Inr (([9], Open), \<lparr>d_in = ([], Open), d_sent = []\<rparr>)"
    by (simp add: transition_to_forwarding_def demo_machine_def connect_or_timeout_def one_target_def)
  from forwarding_requires_authentication [OF slice_stream.laws demo_digest demo_clock
      demo_machine_held _ this] show ?thesis by simp
qed

text \<open>
  C30. \<open>handle_authenticated_connection\<close> succeeds, however the two copies are scheduled, only for CONNECT, when the
  target was reached and both streams came to their end: the target has then received all the bytes of the client's
  stream and the client all those of the target. Both must have ended their streams of their own accord: unlike with
  \<open>copy_bidirectional\<close>, the end of one is not passed on to the other. What is assumed of
  \<open>tokio::io::copy\<close> is one poll between any two halves.
\<close>

theorem direct_connection_complete:
  assumes "copy_poll_law copies (view_of vwc vwt) (sent_of sentc sentt) kept counted"
    and "tunnel_laws ops vwc' sentc' vwt sentt"
    and "handle_authenticated_connection ops copies turns s cmd a d = (Ready (Inr ()), s', t')"
  shows "cmd = Connect \<and> snd (vwc s) = stream_end.Closed \<and>
    (\<exists>b0 b. connect_target ops d a = InTime (Inr b0) \<and> t' = Some b \<and> snd (vwt b0) = stream_end.Closed \<and>
    sentt b = fst (vwc s) \<and> sentc s' = sentc s @ fst (vwt b0))"
proof -
  from assms(3) obtain b0 b n where "cmd = Connect" and conn: "connect_or_timeout ops d a = Inr b0"
    and "t' = Some b" and sp: "tcp_splice copies turns s b0 = (Ready (Inr n), s', b)"
    by (auto simp: handle_authenticated_connection_def
        split: command.splits sum.splits prod.splits poll.splits)
  from conn have c: "connect_target ops d a = InTime (Inr b0)"
    by (auto simp: connect_or_timeout_def from_io_Inr_iff split: timed.splits)
  then have empty: "sentt b0 = []"
    by (rule tunnel.connect_target_empty [OF tunnel.intro [OF assms(2)]])
  from copying.splice_forwards [OF copying.intro [OF assms(1)] sp] empty c \<open>cmd = Connect\<close> \<open>t' = Some b\<close>
  show ?thesis by auto
qed

theorem direct_connection_complete_witness:
  "\<exists>c b. handle_authenticated_connection (duplex_ops [ascii ''a:80'' \<mapsto> ([2, 3], stream_end.Closed)]) memory_copies
      both_ways \<lparr>d_in = ([1], stream_end.Closed), d_sent = []\<rparr> Connect (Domain [0x61] 80) 5 =
        (Ready (Inr ()), c, Some b) \<and>
    d_sent b = [1] \<and> d_sent c = [2, 3]"
proof -
  let ?net = "[ascii ''a:80'' \<mapsto> ([2, 3], stream_end.Closed)]" and ?s = "\<lparr>d_in = ([1], stream_end.Closed), d_sent = []\<rparr>"
  have key: "[0x61] @ ascii '':'' @ show_dec (uint (80 :: u16)) = ascii ''a:80''"
    by (simp add: eval_simps show_dec_def show_radix.simps digit_def)
  have conn: "connect_target (duplex_ops ?net) 5 (Domain [0x61] 80) =
      InTime (Inr \<lparr>d_in = ([2, 3], stream_end.Closed), d_sent = []\<rparr>)"
    by (simp only: connect_target.simps key) (simp add: duplex_ops_def duplex_connect_def)
  then have run: "handle_authenticated_connection (duplex_ops ?net) memory_copies both_ways ?s Connect
      (Domain [0x61] 80) 5 = (Ready (Inr ()), \<lparr>d_in = ([], stream_end.Closed), d_sent = [2, 3]\<rparr>,
        Some \<lparr>d_in = ([], stream_end.Closed), d_sent = [1]\<rparr>)"
    by (simp add: handle_authenticated_connection_def connect_or_timeout_def tcp_splice_both_ways
        del: connect_target.simps)
  from direct_connection_complete [OF memory_copies_law tunnel_laws_duplex run] run conn show ?thesis
    by simp
qed

end
