(* ===== verification/SpliceProgress.thy ===== *)
theory SpliceProgress
  imports Splices
begin

text \<open>
  \<open>DirectSplice::splice\<close> comes to its end: each time its \<open>select!\<close> takes a branch, the branch's
  stream gets shorter or the loop is left, so a stream that ends cannot be read for ever.
\<close>

section \<open>Streams that end\<close>

text \<open>
  Writing may fail but does not wait for ever; and a stream is used up by \<open>n\<close> reads when it ends,
  other than by \<open>WouldBlock\<close> (on which the loop goes on), after fewer than \<open>n\<close> bytes.
\<close>

definition waits_never :: "'s duplex_io \<Rightarrow> bool" where
  "waits_never D \<longleftrightarrow> (\<forall>bs s. fst (dx_write_all D bs s) \<noteq> Pending) \<and> (\<forall>s. fst (dx_flush D s) \<noteq> Pending)"

definition used_up :: "('s \<Rightarrow> view) \<Rightarrow> nat \<Rightarrow> 's \<Rightarrow> bool" where
  "used_up vw n s \<longleftrightarrow> length (fst (vw s)) < n \<and>
     (case snd (vw s) of Closed \<Rightarrow> True | Broken e \<Rightarrow> io_kind e \<noteq> WouldBlock | Open \<Rightarrow> False)"

lemma io_try_Pending_iff: "fst (io_try m s) = Pending \<longleftrightarrow> fst (m s) = Pending"
  by (auto simp: io_try_def split: prod.splits poll.splits)

lemma waits_never_await:
  assumes "waits_never D"
  shows "fst (await (io_try (dx_write_all D buf)) (\<lambda>_. io_try (dx_flush D)) s) \<noteq> Pending"
  using assms io_try_Pending_iff [of "dx_write_all D buf" s] io_try_Pending_iff [of "dx_flush D"]
  by (auto simp: await_def waits_never_def split: prod.splits poll.splits sum.splits)

context splice_pair begin

lemma branch_uses:
  assumes "waits_never B" and "splice_branch A B a b = Some (flow, a', b')"
  shows "flow \<noteq> SpliceStuck \<and> vwb b' = vwb b \<and>
    (flow \<in> range Transferred \<longrightarrow> used_up vwa (Suc n) a \<longrightarrow> used_up vwa n a')"
proof -
  obtain r a1 where rd: "dx_read A BUFFER_SIZE a = (r, a1)" by fastforce
  have law: "read_law vwa (dx_read A)" using laws(1) by (simp add: duplex_laws_def)
  have size: "0 < BUFFER_SIZE" by (simp add: BUFFER_SIZE_def)
  obtain bs fin where v: "vwa a = (bs, fin)" by fastforce
  note read = law [unfolded read_law_def, rule_format, OF size v]
  have "vwb b' = vwb b" using assms(2) by (rule branch) blast
  moreover have "flow \<noteq> SpliceStuck"
  proof
    assume "flow = SpliceStuck"
    with assms(2) obtain buf b1 where
      "await (io_try (dx_write_all B buf)) (\<lambda>_. io_try (dx_flush B)) b = (Pending, b1)"
      by (auto simp: splice_branch_def split: prod.splits poll.splits sum.splits if_splits)
    with waits_never_await [OF assms(1), of buf b] show False by simp
  qed
  moreover have "used_up vwa n a'" if "flow \<in> range Transferred" and u: "used_up vwa (Suc n) a"
  proof (cases "bs = []")
    case True
    with read rd v u that(1) assms(2) show ?thesis
      by (auto simp: splice_branch_def used_up_def split: stream_end.splits if_splits)
  next
    case False
    with read rd obtain k where k: "0 < k" "k \<le> length bs" "r = Ready (Inr (take k bs))"
      "vwa a1 = (drop k bs, fin)" by auto
    with False have "take k bs \<noteq> []" by simp
    with assms(2) rd k(3) have "a' = a1"
      by (auto simp: splice_branch_def split: prod.splits poll.splits sum.splits)
    with k v u show ?thesis by (auto simp: used_up_def)
  qed
  ultimately show ?thesis by blast
qed

lemma branch_none:
  assumes "splice_branch A B a b = None"
  shows "\<not> used_up vwa n a"
proof -
  have law: "read_law vwa (dx_read A)" using laws(1) by (simp add: duplex_laws_def)
  have size: "0 < BUFFER_SIZE" by (simp add: BUFFER_SIZE_def)
  obtain bs fin where v: "vwa a = (bs, fin)" by fastforce
  note read = law [unfolded read_law_def, rule_format, OF size v]
  from assms have "fst (dx_read A BUFFER_SIZE a) = Pending"
    by (auto simp: splice_branch_def split: prod.splits poll.splits sum.splits if_splits)
  with read have "bs = [] \<and> fin = Open"
    by (cases "bs = []") (auto split: stream_end.splits)
  with v show ?thesis by (simp add: used_up_def)
qed

end

section \<open>The loop\<close>

text \<open>One turn of the loop, as \<^const>\<open>splice\<close> takes it.\<close>

definition turn ::
  "'r duplex_io \<Rightarrow> 'w duplex_io \<Rightarrow> side \<Rightarrow> 'r \<Rightarrow> 'w \<Rightarrow> (splice_flow \<times> 'r \<times> 'w) option" where
  "turn R W side r w = (case side of
     FromReader \<Rightarrow> splice_branch R W r w
   | FromWriter \<Rightarrow> map_option (\<lambda>(f, w, r). (f, r, w)) (splice_branch W R w r))"

context splice_pair begin

lemma turn_uses:
  assumes "waits_never A" "waits_never B" "turn A B side a b = Some (flow, a', b')"
    and "used_up vwa (count_list (side # sides) FromReader) a \<or>
         used_up vwb (count_list (side # sides) FromWriter) b"
  shows "flow \<noteq> SpliceStuck \<and> (flow \<in> range Transferred \<longrightarrow>
    used_up vwa (count_list sides FromReader) a' \<or> used_up vwb (count_list sides FromWriter) b')"
proof (cases side)
  case FromReader
  with assms(3) have "splice_branch A B a b = Some (flow, a', b')" by (simp add: turn_def)
  from branch_uses [OF assms(2) this] assms(4) FromReader show ?thesis
    by (auto simp: used_up_def)
next
  case FromWriter
  with assms(3) have "splice_branch B A b a = Some (flow, b', a')" by (auto simp: turn_def)
  from splice_pair.branch_uses [OF splice_pair.intro [OF laws(2) laws(1)] assms(1) this]
    assms(4) FromWriter show ?thesis by (auto simp: used_up_def)
qed

lemma turn_none:
  assumes "turn A B side a b = None"
    and "used_up vwa (count_list (side # sides) FromReader) a \<or>
         used_up vwb (count_list (side # sides) FromWriter) b"
  shows "used_up vwa (count_list sides FromReader) a \<or> used_up vwb (count_list sides FromWriter) b"
proof (cases side)
  case FromReader
  with assms show ?thesis by (auto simp: turn_def dest: branch_none)
next
  case FromWriter
  with assms show ?thesis
    by (auto simp: turn_def dest: splice_pair.branch_none [OF splice_pair.intro [OF laws(2) laws(1)]])
qed

lemma splice_ends:
  assumes "waits_never A" "waits_never B"
    and "used_up vwa (count_list sides FromReader) (ds_reader st) \<or>
         used_up vwb (count_list sides FromWriter) (ds_writer st)"
  shows "fst (splice A B sides st) \<noteq> Pending"
  using assms(3)
proof (induction sides arbitrary: st)
  case Nil
  then show ?case by (simp add: used_up_def)
next
  case (Cons side sides)
  show ?case
  proof (cases "turn A B side (ds_reader st) (ds_writer st)")
    case None
    from Cons.IH [OF turn_none [OF None Cons.prems]] None show ?thesis by (simp add: turn_def)
  next
    case (Some x)
    then obtain flow a b where step: "turn A B side (ds_reader st) (ds_writer st) = Some (flow, a, b)"
      by (cases x) simp
    note uses = turn_uses [OF assms(1,2) step Cons.prems]
    show ?thesis
    proof (cases flow)
      case (Transferred m)
      with uses have "used_up vwa (count_list sides FromReader) a \<or>
          used_up vwb (count_list sides FromWriter) b" by simp
      with Cons.IH [of "st\<lparr>ds_reader := a, ds_writer := b,
          ds_bytes_transferred := ds_bytes_transferred st + m\<rparr>"] step Transferred show ?thesis
        by (simp add: turn_def Let_def)
    qed (use uses step in \<open>simp_all add: turn_def Let_def\<close>)
  qed
qed

end

section \<open>Properties\<close>

text \<open>
  C32. \<open>DirectSplice::splice\<close> returns, under every schedule that takes the branch of one of its
  streams more often than that stream has bytes, if the stream ends and writes do not wait for ever.
\<close>

theorem direct_splice_terminates:
  assumes "duplex_laws R vwr sentr" and "duplex_laws W vww sentw"
    and "waits_never R" and "waits_never W"
    and "used_up vwr (count_list sides FromReader) r \<or> used_up vww (count_list sides FromWriter) w"
  shows "fst (splice R W sides (direct_splice_new r w)) \<in> range Ready"
proof -
  have "fst (splice R W sides (direct_splice_new r w)) \<noteq> Pending"
    by (rule splice_pair.splice_ends [OF splice_pair.intro [OF assms(1,2)] assms(3,4)])
      (use assms(5) in \<open>simp add: direct_splice_new_def\<close>)
  then show ?thesis by (cases "fst (splice R W sides (direct_splice_new r w))") auto
qed

lemma waits_never_duplex: "waits_never duplex_io_ops"
  by (simp add: waits_never_def duplex_io_ops_def duplex_write_all_def ret_def)

theorem direct_splice_terminates_witness:
  "fst (splice duplex_io_ops duplex_io_ops [FromWriter, FromReader, FromReader]
     (direct_splice_new \<lparr>d_in = ([7], Closed), d_sent = []\<rparr> \<lparr>d_in = ([], Open), d_sent = []\<rparr>)) \<in> range Ready"
  by (rule direct_splice_terminates [OF duplex_laws_duplex duplex_laws_duplex
        waits_never_duplex waits_never_duplex]) (simp add: used_up_def)

end
