(* ===== verification/UdpTime.thy ===== *)
theory UdpTime
  imports Udp
begin

text \<open>
  src/proxy/udp.rs, the idle timeout of \<open>handle_udp\<close>: each round of the loop is one
  \<open>timeout(udp_timeout, ...)\<close>, whose clock starts when the round starts. What the clock of Udp means for
  associations that are idle and for those that are not.
\<close>

section \<open>Runs\<close>

lemma udp_loop_append:
  "udp_loop ops arrive d started (xs @ ys) st =
     (case udp_loop ops arrive d started xs st of
        (Some s, _, st') \<Rightarrow> udp_loop ops arrive d s ys st'
      | result \<Rightarrow> result)"
proof (induction xs arbitrary: started st)
  case (Cons x xs)
  obtain t u turn where x: "x = (t, u, turn)" by (cases x)
  show ?case
  proof (cases "polls turn")
    case True
    show ?thesis
      unfolding x append_Cons udp_loop_polls [OF True]
      by (auto simp: Cons.IH split: option.splits prod.splits poll.splits udp_flow.splits)
  next
    case False
    then show ?thesis using Cons.IH by (cases turn) (simp_all add: x)
  qed
qed simp

section \<open>Idle associations\<close>

text \<open>Turns that bring nothing but bytes of the client, and polls.\<close>

fun quiet :: "udp_turn \<Rightarrow> bool" where
  "quiet (Arrive bs Open) \<longleftrightarrow> True"
| "quiet Wake \<longleftrightarrow> True"
| "quiet _ \<longleftrightarrow> False"

definition polled_from :: "nat \<Rightarrow> timed_turn list \<Rightarrow> bool" where
  "polled_from deadline turns \<longleftrightarrow> list_ex (\<lambda>(t, u, turn). turn = Wake \<and> deadline \<le> t) turns"

context udp_relay
begin

lemma loop_timed_quiet:
  assumes "vw (resumed st) = (bs, Open)" and "settled_state st" and "list_all quiet (turns_of idle)"
    and "fst (read_udp_frame (view_reader eof 0) (bs @ arrived Open (turns_of idle), Open)) = Pending"
  shows "\<exists>c reading. sent c = sent (us_client st) \<and> udp_loop ops arrive d l idle st =
    (if polled_from (l + d) idle then (None, Ready (Inr ()), st\<lparr>us_client := c, us_reading := reading\<rparr>)
     else (Some l, Pending, st\<lparr>us_client := c, us_reading := reading\<rparr>))"
  using assms
proof (induction idle arbitrary: st bs)
  case Nil
  then show ?case
    by (intro exI [of _ "us_client st"] exI [of _ "us_reading st"]) (simp add: polled_from_def)
next
  case (Cons x idle)
  obtain t u turn where x: "x = (t, u, turn)" by (cases x)
  have go: ?case
    if "vw (resumed st1) = (bs1, Open)" "settled_state st1" "sent (us_client st1) = sent (us_client st)"
      and same: "\<And>c q. st1\<lparr>us_client := c, us_reading := q\<rparr> = st\<lparr>us_client := c, us_reading := q\<rparr>"
      and waits: "fst (read_udp_frame (view_reader eof 0) (bs1 @ arrived Open (turns_of idle), Open)) = Pending"
      and step: "udp_loop ops arrive d l (x # idle) st = udp_loop ops arrive d l idle st1"
      and poll: "polled_from (l + d) (x # idle) = polled_from (l + d) idle" for st1 bs1
    using Cons.IH [OF that(1,2) _ waits] Cons.prems(3) that(3) unfolding same step poll by simp
  from Cons.prems(3) consider (arrive) new where "turn = Arrive new Open" | (wake) "turn = Wake"
    by (cases turn rule: quiet.cases) (simp_all add: x)
  then show ?case
  proof cases
    case arrive
    let ?st = "udp_arrive arrive new Open st"
    have "vw (resumed ?st) = (bs @ new, Open)"
      using laws Cons.prems(1) by (auto simp: udp_laws_def udp_arrive_def resumed_def split: option.splits)
    then show ?thesis
      using arrive_settled [OF Cons.prems(2), of new Open] Cons.prems(4) arrive
      by (intro go [of ?st "bs @ new"]) (simp_all add: x polled_from_def udp_arrive_def)
  next
    case wake
    obtain q c where poll: "read_udp_frame (udp_reader ops) (resumed st) = (q, c)" by fastforce
    have "fst (read_udp_frame (view_reader eof 0) (bs, Open)) = Pending"
      using Cons.prems(4) by (rule frame_waits_before)
    with frame_poll [OF Cons.prems(1)] poll have q: "q = Pending" by simp
    have c: "sent c = sent (us_client st)"
      using frame_keeps_sent [OF poll] Cons.prems(2) by (simp add: settled_state_def)
    show ?thesis
    proof (cases "l + d \<le> t")
      case True
      with poll q c wake show ?thesis
        by (intro exI [of _ c] exI [of _ None])
          (simp add: x polled_from_def udp_select_def udp_handle_event_def)
    next
      case False
      with poll q c wake Cons.prems show ?thesis
        by (intro go [of "st\<lparr>us_client := c, us_reading := Some (resumed st)\<rparr>" bs])
          (simp_all add: x polled_from_def udp_select_def arrived_polls settled_state_def)
    qed
  qed
qed

end

section \<open>Active associations\<close>

text \<open>Times do not run backwards: a turn is over after it happens, and the next comes after that.\<close>

fun timely :: "nat \<Rightarrow> timed_turn list \<Rightarrow> bool" where
  "timely now [] \<longleftrightarrow> True"
| "timely now ((t, u, turn) # turns) \<longleftrightarrow> now \<le> t \<and> t \<le> u \<and> timely u turns"

lemma timely_append: "timely now (xs @ ys) \<Longrightarrow> timely now xs"
  by (induction now xs rule: timely.induct) auto

fun is_datagram :: "udp_turn \<Rightarrow> bool" where
  "is_datagram (Datagram client_first recv) \<longleftrightarrow> True"
| "is_datagram _ \<longleftrightarrow> False"

text \<open>A datagram that is received completes its round, so the present one has started after it.\<close>

lemma select_Datagram: "fst (udp_select ops elapsed (Datagram first recv) st) \<noteq> None"
  by (auto simp: udp_select_def split: prod.splits poll.splits)

lemma timed_since:
  assumes "udp_loop ops arrive d started turns st = (Some l, r, st')"
    and "timely now turns" and "started \<le> now"
  shows "started \<le> l \<and> (\<forall>(t, u, turn) \<in> set turns. is_datagram turn \<longrightarrow> u \<le> l)"
  using assms
proof (induction turns arbitrary: started now st)
  case (Cons x turns)
  obtain t u turn where x: "x = (t, u, turn)" by (cases x)
  from Cons.prems(2,3) have times: "started \<le> t" "t \<le> u" "timely u turns" by (simp_all add: x)
  show ?case
  proof (cases "polls turn")
    case True
    note loop = Cons.prems(1) [unfolded x udp_loop_polls [OF True]]
    obtain e st0 where sel: "udp_select ops (started + d \<le> t) turn st = (e, st0)" by fastforce
    with loop consider (wait) "e = None" "udp_loop ops arrive d started turns st0 = (Some l, r, st')"
      | (round) st1 where "udp_loop ops arrive d u turns st1 = (Some l, r, st')"
      by (auto split: option.splits prod.splits poll.splits udp_flow.splits)
    then show ?thesis
    proof cases
      case wait
      have "\<not> is_datagram turn"
      proof
        assume "is_datagram turn"
        then obtain first recv where "turn = Datagram first recv" by (cases turn) simp_all
        with wait(1) sel show False using select_Datagram [of ops "started + d \<le> t" first recv st] by simp
      qed
      with Cons.IH [OF wait(2) times(3)] times show ?thesis by (simp add: x)
    next
      case round
      from Cons.IH [OF this times(3)] times show ?thesis by (simp add: x)
    qed
  next
    case False
    then obtain bs fin where turn: "turn = Arrive bs fin" by (cases turn) simp_all
    with Cons.prems(1) have "udp_loop ops arrive d started turns
        (udp_arrive arrive bs fin st) = (Some l, r, st')" by (simp add: x)
    from Cons.IH [OF this times(3)] times show ?thesis by (simp add: x turn)
  qed
qed simp

text \<open>How a loop comes to end without an error.\<close>

lemma event_Break:
  assumes "udp_handle_event ops event st = (Ready Break, st')"
  shows "event = Elapsed \<or> event = InTime (Client (Inr None))"
  using assms unfolding udp_handle_event_def
  by (auto simp: Let_def split: timed.splits udp_event.splits sum.splits option.splits prod.splits poll.splits)


context udp_relay
begin

lemma timed_ends:
  assumes "udp_loop ops arrive d started turns st = (w, Ready (Inr ()), st')"
  shows "\<exists>pre t u turn rest l st1. turns = pre @ (t, u, turn) # rest \<and>
    udp_loop ops arrive d started pre st = (Some l, Pending, st1) \<and> polls turn \<and>
    (l + d \<le> t \<or> fst (read_udp_frame (udp_reader ops) (resumed st1)) = Ready (Inr None))"
  (is "\<exists>pre t u turn rest l st1. ?end pre t u turn rest l st1 turns started st")
  using assms
proof (induction turns arbitrary: started st)
  case (Cons x turns)
  obtain t u turn where x: "x = (t, u, turn)" by (cases x)
  have later: ?case
    if run: "udp_loop ops arrive d s1 turns st1 = (w, Ready (Inr ()), st')"
      and step: "\<And>ys. udp_loop ops arrive d started (x # ys) st = udp_loop ops arrive d s1 ys st1"
    for s1 st1
  proof -
    from Cons.IH [OF run] obtain pre t' u' turn' rest l st2
      where "?end pre t' u' turn' rest l st2 turns s1 st1" by blast
    then show ?thesis
      by (intro exI [of _ "x # pre"] exI [of _ t'] exI [of _ u'] exI [of _ turn'] exI [of _ rest]
          exI [of _ l] exI [of _ st2]) (simp only: step append_Cons simp_thms)
  qed
  show ?case
  proof (cases "polls turn")
    case False
    then obtain bs fin where "turn = Arrive bs fin" by (cases turn) simp_all
    with Cons.prems show ?thesis
      by (intro later [of started "udp_arrive arrive bs fin st"]) (simp_all add: x)
  next
    case True
    note loop = udp_loop_polls [OF True]
    obtain e st0 where sel: "udp_select ops (started + d \<le> t) turn st = (e, st0)" by fastforce
    show ?thesis
    proof (cases e)
      case None
      with Cons.prems sel show ?thesis
        by (intro later [of started st0]) (simp_all add: x loop)
    next
      case (Some ev)
      obtain f st1 where ev: "udp_handle_event ops ev st0 = (f, st1)"
        by fastforce
      show ?thesis
      proof (cases "f = Ready Continue")
        case True
        with Cons.prems sel Some ev show ?thesis
          by (intro later [of u st1]) (simp_all add: x loop)
      next
        case False
        with Cons.prems sel Some ev have "f = Ready Break"
          by (auto simp: x loop split: poll.splits udp_flow.splits)
        with ev have "ev = Elapsed \<or> ev = InTime (Client (Inr None))"
          by (auto dest: event_Break)
        with sel Some have "started + d \<le> t \<or>
            fst (read_udp_frame (udp_reader ops) (resumed st)) = Ready (Inr None)"
          by (auto simp: udp_select_def split: udp_turn.splits prod.splits poll.splits if_splits)
        with True show ?thesis
          by (intro exI [of _ "[]"] exI [of _ t] exI [of _ u] exI [of _ turn] exI [of _ turns]
              exI [of _ started] exI [of _ st]) (simp add: x)
      qed
    qed
  qed
qed simp

lemma timed_ends_why:
  assumes run: "udp_loop ops arrive d now turns st = (w, Ready (Inr ()), st')"
    and "timely now turns"
  shows "\<exists>pre t u turn rest l st1. turns = pre @ (t, u, turn) # rest \<and>
    udp_loop ops arrive d now pre st = (Some l, Pending, st1) \<and>
    (l + d \<le> t \<and> now + d \<le> t \<and> (\<forall>(t', u', turn') \<in> set pre. is_datagram turn' \<longrightarrow> u' + d \<le> t) \<or>
     (\<exists>fin. vw (resumed st1) = ([], fin) \<and>
        (fin = Closed \<or> (\<exists>e. fin = Broken e \<and> io_kind e = UnexpectedEof))))"
proof -
  from timed_ends [OF run] obtain pre t u turn rest l st1 where
    turns: "turns = pre @ (t, u, turn) # rest" and
    pre: "udp_loop ops arrive d now pre st = (Some l, Pending, st1)" and
    why: "l + d \<le> t \<or> fst (read_udp_frame (udp_reader ops) (resumed st1)) = Ready (Inr None)" by blast
  from assms(2) turns have "timely now pre" by (auto dest: timely_append)
  from timed_since [OF pre this] have
    since: "now \<le> l" "\<forall>(t', u', turn') \<in> set pre. is_datagram turn' \<longrightarrow> u' \<le> l" by simp_all
  obtain bs fin where v: "vw (resumed st1) = (bs, fin)" by fastforce
  have eof: "io_kind eof = UnexpectedEof"
    by (rule byte_stream.eof_kind [OF byte_stream.intro [OF reader_laws]])
  from why have "l + d \<le> t \<or> bs = [] \<and> (fin = Closed \<or> (\<exists>e. fin = Broken e \<and> io_kind e = UnexpectedEof))"
    using frame_poll [OF v] eof by (auto simp: view_frame_None_iff)
  with turns pre since v show ?thesis by fastforce
qed

end

text \<open>
  What is waited for while an event is dealt with is under no timeout: when the client does not take
  the frame of a datagram, nothing that happens later ends the association.
\<close>

lemma blocked_write_for_ever:
  assumes "udp_loop ops arrive d now pre st = (Some l, Pending, st1)"
    and "fst (udp_write_all ops (datagram_bytes (data, src)) (us_client st1)) = Pending"
  shows "\<exists>st2. \<forall>rest. udp_loop ops arrive d now
    (pre @ (t, u, Datagram False (Inr (data, src))) # rest) st = (None, Pending, st2)"
  using assms
  by (auto simp: udp_loop_append udp_select_def udp_handle_event_def build_received Let_def
      split: prod.splits)

section \<open>A timed association\<close>

text \<open>
  A datagram is delivered at time 5, which takes until 6; the client sends a part of a frame at time 10, and
  nothing more. With a timeout of 60 the poll at time 30 finds it waiting, the one at time 70 ends it.
\<close>

definition demo_udp_state :: "bytes \<Rightarrow> u64 \<Rightarrow> (duplex, udp_net) udp_state" where
  "demo_udp_state written received = \<lparr>us_client = \<lparr>d_in = ([], Open), d_sent = written\<rparr>,
     us_reading = None, us_net = \<lparr>n_log = []\<rparr>, us_session = add_received received
       (fst (session_new 1 0 (V4 (Ipv4Addr 1 2 3 4) 9) (Domain [97] 1) UdpAssociate))\<rparr>"

definition demo_datagram :: "timed_turn list" where
  "demo_datagram = [(5, 6, Datagram False (Inr ([7], V4 (Ipv4Addr 9 9 9 9) 53)))]"

definition demo_idle :: "timed_turn list" where
  "demo_idle = [(10, 10, Arrive frame_head Open), (30, 30, Wake), (70, 70, Wake)]"

definition demo_datagram_frame :: bytes where
  "demo_datagram_frame = [1, 9, 9, 9, 9, 0, 53, 0, 1, 0x0d, 0x0a, 7]"

lemmas timed_eval = udp_eval demo_udp_state_def demo_datagram_def demo_idle_def
  demo_datagram_frame_def

lemma demo_datagram_run:
  "udp_loop demo_udp_ops (mem_arrive d_in duplex_put) 60 0 demo_datagram (demo_udp_state [] 0) =
     (Some 6, Pending, demo_udp_state demo_datagram_frame 1)"
  by (simp add: timed_eval to_be_u16 add_received_def)

lemma demo_idle_run:
  "udp_loop demo_udp_ops (mem_arrive d_in duplex_put) 60 0 (demo_datagram @ demo_idle)
     (demo_udp_state [] 0) = (None, Ready (Inr ()), demo_udp_state demo_datagram_frame 1)"
  by (simp add: timed_eval to_be_u16 add_received_def)

section \<open>Properties\<close>

text \<open>
  C22. The idle timeout ends an idle association, and no earlier: from a round that has started at
  \<open>l\<close> on, as long as no datagram is received and the bytes that arrive from the client do not complete a frame
  (nor show it to be malformed), the association goes on waiting up to the first poll at or after
  \<open>l + udp_timeout\<close>, which ends it without an error. Bytes that arrive do not put this off. Nothing is
  written to the client, sent or counted in the meantime.
\<close>

theorem udp_idle_timeout:
  assumes "udp_laws ops arrive vw sent log eof" and "us_reading st = None"
    and "udp_loop ops arrive udp_timeout now before st = (Some l, Pending, st1)"
    and "vw (resumed st1) = (bs, Open)" and "list_all quiet (turns_of idle)"
    and "fst (read_udp_frame (view_reader eof 0) (bs @ arrived Open (turns_of idle), Open)) = Pending"
  shows "\<exists>c reading. sent c = sent (us_client st1) \<and>
    udp_loop ops arrive udp_timeout now (before @ idle) st =
      (if polled_from (l + udp_timeout) idle
       then (None, Ready (Inr ()), st1\<lparr>us_client := c, us_reading := reading\<rparr>)
       else (Some l, Pending, st1\<lparr>us_client := c, us_reading := reading\<rparr>))"
proof -
  have relay: "udp_relay ops arrive vw sent log eof" using assms(1) by (rule udp_relay.intro)
  have "udp_relay.settled_state sent st" using assms(2) by (rule udp_relay.fresh_settled [OF relay])
  with udp_relay.loop_accounts [OF relay assms(3)] have "udp_relay.settled_state sent st1" by blast
  from udp_relay.loop_timed_quiet [OF relay assms(4) this assms(5,6)] assms(3) show ?thesis
    by (simp add: udp_loop_append)
qed

theorem udp_idle_timeout_witness:
  "\<exists>c reading. d_sent c = demo_datagram_frame \<and>
     udp_loop demo_udp_ops (mem_arrive d_in duplex_put) 60 0 (demo_datagram @ demo_idle)
       (demo_udp_state [] 0) =
       (None, Ready (Inr ()), demo_udp_state demo_datagram_frame 1\<lparr>us_client := c, us_reading := reading\<rparr>)"
proof -
  have fresh: "us_reading (demo_udp_state [] 0) = None" by (simp add: demo_udp_state_def)
  have view: "d_in (resumed (demo_udp_state demo_datagram_frame 1)) = ([], Open)"
    by (simp add: demo_udp_state_def)
  have quiet: "list_all quiet (turns_of demo_idle)" by (simp add: demo_idle_def)
  have waits: "fst (read_udp_frame (view_reader early_eof 0)
      ([] @ arrived Open (turns_of demo_idle), Open)) = Pending"
    by (simp add: timed_eval)
  have "polled_from (6 + 60) demo_idle" by (simp add: polled_from_def demo_idle_def)
  with udp_idle_timeout [OF demo_udp_laws fresh demo_datagram_run view quiet waits] show ?thesis
    by (simp add: demo_udp_state_def)
qed

text \<open>
  C23. An association ends without an error only when it is over: the client's stream has ended
  where a frame would begin, or at that time \<open>udp_timeout\<close> has passed since the round
  started, since every datagram before was dealt with, and since the association began.
\<close>

theorem udp_ends_only_idle:
  assumes "udp_laws ops arrive vw sent log eof"
    and "udp_loop ops arrive udp_timeout now turns st = (w, Ready (Inr ()), st')"
    and "timely now turns"
  shows "\<exists>before t u turn rest l st1. turns = before @ (t, u, turn) # rest \<and>
    udp_loop ops arrive udp_timeout now before st = (Some l, Pending, st1) \<and>
    (l + udp_timeout \<le> t \<and> now + udp_timeout \<le> t \<and>
       (\<forall>(t', u', turn') \<in> set before. is_datagram turn' \<longrightarrow> u' + udp_timeout \<le> t) \<or>
     (\<exists>fin. vw (resumed st1) = ([], fin) \<and>
        (fin = Closed \<or> (\<exists>e. fin = Broken e \<and> io_kind e = UnexpectedEof))))"
  by (rule udp_relay.timed_ends_why [OF udp_relay.intro [OF assms(1)] assms(2,3)])

theorem udp_ends_only_idle_witness:
  "\<exists>before t u turn rest l st1. demo_datagram @ demo_idle = before @ (t, u, turn) # rest \<and>
    udp_loop demo_udp_ops (mem_arrive d_in duplex_put) 60 0 before (demo_udp_state [] 0) =
      (Some l, Pending, st1) \<and>
    (l + 60 \<le> t \<or> (\<exists>fin. d_in (resumed st1) = ([], fin) \<and> fin \<noteq> Open))"
proof -
  have "timely 0 (demo_datagram @ demo_idle)" by (simp add: demo_datagram_def demo_idle_def)
  from udp_ends_only_idle [OF demo_udp_laws demo_idle_run this] show ?thesis by fastforce
qed

end
