(* ===== verification/UnitTests.thy ===== *)
theory UnitTests
  imports Tunnel Configs UdpFrames Vision
begin

text \<open>
  The tests of the repository (the \<open>#[cfg(test)]\<close> modules and tests/relay\_integration.rs), each as a
  predicate that says what its assertions say, evaluated on the model. \<open>expect\<close>, \<open>unwrap\<close> and the
  assertions fail the test on every other outcome. A \<open>tokio_test\<close> mock delivers its bytes and then the end of the
  stream; a \<open>duplex\<close> pipe whose other end is still held delivers what was written and stays open.
\<close>

section \<open>The tests\<close>

text \<open>\<open>matches!(err, TrojanError::Protocol(message) if message.contains(...))\<close>\<close>

fun protocol_error :: "string \<Rightarrow> trojan_error \<Rightarrow> bool" where
  "protocol_error part (Protocol message) \<longleftrightarrow> sublist (ascii part) message"
| "protocol_error part _ \<longleftrightarrow> False"

definition mock :: "bytes \<Rightarrow> view" where "mock raw = (raw, Closed)"

subsection \<open>src/protocol/command.rs and src/protocol/address.rs\<close>

definition test_command_from_u8 :: bool where
  "test_command_from_u8 \<longleftrightarrow> command_from_u8 0x01 = Inr Connect \<and>
     command_from_u8 0x03 = Inr UdpAssociate \<and> isl (command_from_u8 0x02)"

definition test_command_as_u8 :: bool where
  "test_command_as_u8 \<longleftrightarrow> as_u8 Connect = 0x01 \<and> as_u8 UdpAssociate = 0x03"

definition test_address_ipv4 :: bool where
  "test_address_ipv4 \<longleftrightarrow> (let addr = IPv4 (V4 (Ipv4Addr 127 0 0 1) 8080) in
     address_port addr = 8080 \<and> address_host addr = ascii ''127.0.0.1'')"

definition test_address_domain :: bool where
  "test_address_domain \<longleftrightarrow> (let addr = Domain (ascii ''example.com'') 443 in
     address_port addr = 443 \<and> address_host addr = ascii ''example.com'')"

subsection \<open>src/protocol/header.rs\<close>

definition test_password_hash :: "(bytes \<Rightarrow> bytes) \<Rightarrow> (bytes \<Rightarrow> rstring) \<Rightarrow> bool" where
  "test_password_hash sha hex \<longleftrightarrow>
     length (hash_password sha hex (ascii ''test_password'')) = PASSWORD_HEX_LEN"

definition test_parse_valid_header :: "(bytes \<Rightarrow> bytes) \<Rightarrow> (bytes \<Rightarrow> rstring) \<Rightarrow> bool" where
  "test_parse_valid_header sha hex \<longleftrightarrow>
     (let password_hash = hash_password sha hex (ascii ''secret'');
          raw = password_hash @ CRLF @ [as_u8 Connect] @ [TYPE_DOMAIN] @ [11] @ ascii ''example.com'' @
            to_be (443 :: u16) @ CRLF
      in case fst (header_read_from (view_reader early_eof 0) (mock raw)) of
           Ready (Inr header) \<Rightarrow> h_command header = Connect \<and>
             h_address header = Domain (ascii ''example.com'') 443 \<and>
             verify_password header [password_hash]
         | _ \<Rightarrow> False)"

definition test_invalid_password_hash_format :: bool where
  "test_invalid_password_hash_format \<longleftrightarrow>
     (let raw = replicate PASSWORD_HEX_LEN 0x7A
      in case fst (header_read_from (view_reader early_eof 0) (mock raw)) of
           Ready (Inl err) \<Rightarrow> protocol_error ''Invalid password hash format'' err
         | _ \<Rightarrow> False)"

definition test_try_parse_from_buf_valid :: "(bytes \<Rightarrow> bytes) \<Rightarrow> (bytes \<Rightarrow> rstring) \<Rightarrow> bool" where
  "test_try_parse_from_buf_valid sha hex \<longleftrightarrow>
     (let password_hash = hash_password sha hex (ascii ''secret'');
          raw = password_hash @ CRLF @ [as_u8 Connect] @ [TYPE_DOMAIN] @ [11] @ ascii ''example.com'' @
            to_be (443 :: u16) @ CRLF @ (ascii ''GET / HTTP/1.1'' @ [0x0d, 0x0a])
      in case try_parse_from_buf raw of
           Some (Inr (Some header)) \<Rightarrow> h_command header = Connect \<and> verify_password header [password_hash]
         | _ \<Rightarrow> False)"

definition test_try_parse_from_buf_bad_hash :: bool where
  "test_try_parse_from_buf_bad_hash \<longleftrightarrow>
     (let raw = replicate PASSWORD_HEX_LEN 0x7A @ CRLF @ [as_u8 Connect]
      in case try_parse_from_buf raw of Some result \<Rightarrow> isl result | None \<Rightarrow> False)"

definition test_try_parse_from_buf_too_short :: bool where
  "test_try_parse_from_buf_too_short \<longleftrightarrow> try_parse_from_buf (replicate 10 0x61) = Some (Inr None)"

subsection \<open>src/proxy/udp.rs\<close>

definition test_read_udp_frame_ipv4 :: bool where
  "test_read_udp_frame_ipv4 \<longleftrightarrow>
     (let raw = [TYPE_IPV4] @ [8, 8, 8, 8] @ to_be (53 :: u16) @ to_be (4 :: u16) @ UDP_CRLF @ ascii ''ping''
      in case fst (read_udp_frame (view_reader early_eof 0) (mock raw)) of
           Ready (Inr (Some frame)) \<Rightarrow>
             f_address frame = IPv4 (socket_addr_new (IpV4 (Ipv4Addr 8 8 8 8)) 53) \<and>
             f_payload frame = ascii ''ping''
         | _ \<Rightarrow> False)"

definition test_read_udp_frame_eof :: bool where
  "test_read_udp_frame_eof \<longleftrightarrow>
     fst (read_udp_frame (view_reader early_eof 0) (mock [])) = Ready (Inr None)"

definition test_read_udp_frame_invalid_crlf :: bool where
  "test_read_udp_frame_invalid_crlf \<longleftrightarrow>
     (let raw = [TYPE_IPV4] @ [1, 1, 1, 1] @ to_be (53 :: u16) @ to_be (1 :: u16) @ [0x00, 0x00]
      in case fst (read_udp_frame (view_reader early_eof 0) (mock raw)) of
           Ready (Inl err) \<Rightarrow> protocol_error ''Invalid UDP CRLF'' err
         | _ \<Rightarrow> False)"

definition test_build_udp_frame_ipv6 :: bool where
  "test_build_udp_frame_ipv6 \<longleftrightarrow>
     (let source_addr = socket_addr_new (IpV6 (Ipv6Addr 0 0 0 0 0 0 0 1)) 5353
      in case build_udp_frame source_addr (ascii ''pong'') of
           Inl _ \<Rightarrow> False
         | Inr frame \<Rightarrow>
             (let len_offset = 1 + 16 + 2
              in index frame 0 = Some TYPE_IPV6 \<and>
                 slice frame len_offset (len_offset + 2) = Some (to_be (4 :: u16)) \<and>
                 slice frame (len_offset + 2) (len_offset + 4) = Some UDP_CRLF \<and>
                 slice_from frame (len_offset + 4) = Some (ascii ''pong'')))"

subsection \<open>src/proxy/fallback.rs\<close>

text \<open>
  \<open>read_to_end\<close> reads until a read returns nothing; the first argument bounds the number of reads.
\<close>

fun read_to_end :: "nat \<Rightarrow> (nat \<Rightarrow> ('s, io_error, bytes) io) \<Rightarrow> ('s, io_error, bytes) io" where
  "read_to_end 0 m = (\<lambda>s. (Pending, s))"
| "read_to_end (Suc reads) m = await (m 32) (\<lambda>chunk.
     if chunk = [] then ret [] else await (read_to_end reads m) (\<lambda>more. ret (chunk @ more)))"

definition test_peek_client_data_reads_bytes :: bool where
  "test_peek_client_data_reads_bytes \<longleftrightarrow>
     (let data = ascii ''GET / HTTP/1.1'' @ CRLF @ ascii ''Host: example.com'' @ CRLF @ CRLF
      in case fst (peek_client_data (view_reader early_eof 65535) 512 (mock data)) of
           Ready (Inr buf) \<Rightarrow> buf \<noteq> [] \<and> buf = data
         | _ \<Rightarrow> False)"

definition test_prefixed_stream_reads_prefix_then_inner :: bool where
  "test_prefixed_stream_reads_prefix_then_inner \<longleftrightarrow>
     fst (read_to_end 4 (prefixed_poll_read cursor_copy (view_read 65535))
       (prefixed_new (ascii ''PREFIX'') (mock (ascii ''INNER'')))) = Ready (Inr (ascii ''PREFIXINNER''))"

definition test_prefixed_stream_empty_prefix :: bool where
  "test_prefixed_stream_empty_prefix \<longleftrightarrow>
     fst (read_to_end 4 (prefixed_poll_read cursor_copy (view_read 65535))
       (prefixed_new [] (mock (ascii ''INNER'')))) = Ready (Inr (ascii ''INNER''))"

subsection \<open>src/config.rs\<close>

definition test_default_config :: bool where
  "test_default_config \<longleftrightarrow>
     (let config = \<lparr>bind_addr = default_bind_addr, tls_cert = ascii ''certs/cert.pem'',
        tls_key = ascii ''certs/key.pem'',
        passwords = [ascii ''5fd924625f6ab16a19cc9807c7c506ae1813490e4ba675f843d5a10e''],
        udp_bind_addr = default_udp_bind_addr, log_level = default_log_level,
        tcp_timeout = default_tcp_timeout, udp_timeout = default_udp_timeout,
        max_connections = default_max_connections, fallback_addr = default_fallback_addr\<rparr>
      in bind_addr config = ascii ''0.0.0.0:443'' \<and> log_level config = ascii ''info'' \<and>
         tcp_timeout config = 300 \<and> udp_timeout config = 60 \<and> max_connections config = 1024 \<and>
         udp_bind_addr config = ascii ''0.0.0.0:0'')"

definition test_validate_host_port_accepts_socket_addr :: bool where
  "test_validate_host_port_accepts_socket_addr \<longleftrightarrow>
     \<not> isl (validate_host_port (ascii ''fallback_addr'') (ascii ''127.0.0.1:80'')) \<and>
     \<not> isl (validate_host_port (ascii ''fallback_addr'') (ascii ''[::1]:443''))"

definition test_validate_host_port_accepts_hostname_port :: bool where
  "test_validate_host_port_accepts_hostname_port \<longleftrightarrow>
     \<not> isl (validate_host_port (ascii ''fallback_addr'') (ascii ''example.com:443'')) \<and>
     \<not> isl (validate_host_port (ascii ''fallback_addr'') (ascii ''localhost:8080''))"

definition test_validate_host_port_rejects_invalid_values :: bool where
  "test_validate_host_port_rejects_invalid_values \<longleftrightarrow>
     isl (validate_host_port (ascii ''fallback_addr'') (ascii ''example.com'')) \<and>
     isl (validate_host_port (ascii ''fallback_addr'') (ascii ''example.com:abc'')) \<and>
     isl (validate_host_port (ascii ''fallback_addr'') (ascii '':443''))"

subsection \<open>src/reality/vision.rs\<close>

text \<open>
  The clock stands still during a test; \<open>env\<close> also has the digest. The pipe of the last three holds
  the encoded request.
\<close>

definition vision_password_hash :: "vision_env \<Rightarrow> (bytes \<Rightarrow> rstring) \<Rightarrow> rstring" where
  "vision_password_hash env hex = hex (sha224 env (ascii ''secret''))"

definition test_vision_encode_decode :: "vision_env \<Rightarrow> (bytes \<Rightarrow> rstring) \<Rightarrow> bool" where
  "test_vision_encode_decode env hex \<longleftrightarrow>
     (let addr = Domain (ascii ''example.com'') 443; password_hash = vision_password_hash env hex
      in case vision_request_new env Connect addr password_hash of
           Inl _ \<Rightarrow> False
         | Inr request \<Rightarrow>
             (case vision_encode env request of
                Inl _ \<Rightarrow> False
              | Inr encoded \<Rightarrow> index encoded 0 = Some VISION_MAGIC_HEADER \<and>
                  index encoded 1 = Some VISION_VERSION))"

definition test_vision_authenticate_valid_password :: "vision_env \<Rightarrow> (bytes \<Rightarrow> rstring) \<Rightarrow> bool" where
  "test_vision_authenticate_valid_password env hex \<longleftrightarrow>
     (let addr = Domain (ascii ''example.com'') 443; password_hash = vision_password_hash env hex
      in case vision_request_new env Connect addr password_hash of
           Inl _ \<Rightarrow> False
         | Inr request \<Rightarrow>
             (case vision_encode env request of
                Inl _ \<Rightarrow> False
              | Inr encoded \<Rightarrow>
                  (case fst (authenticate env (view_reader early_eof 0) [password_hash] (encoded, Open)) of
                     Ready (Inr (Some result)) \<Rightarrow> fst result = Connect \<and> snd result = addr
                   | _ \<Rightarrow> False)))"

definition test_vision_authenticate_wrong_password :: "vision_env \<Rightarrow> (bytes \<Rightarrow> rstring) \<Rightarrow> bool" where
  "test_vision_authenticate_wrong_password env hex \<longleftrightarrow>
     (let addr = Domain (ascii ''example.com'') 443; password_hash = vision_password_hash env hex
      in case vision_request_new env Connect addr password_hash of
           Inl _ \<Rightarrow> False
         | Inr request \<Rightarrow>
             (case vision_encode env request of
                Inl _ \<Rightarrow> False
              | Inr encoded \<Rightarrow>
                  (case fst (authenticate env (view_reader early_eof 0) [replicate 56 0x61] (encoded, Open)) of
                     Ready (Inl err) \<Rightarrow> err = AuthenticationFailed
                   | _ \<Rightarrow> False)))"

definition test_vision_authenticate_tampered_integrity ::
  "vision_env \<Rightarrow> (bytes \<Rightarrow> rstring) \<Rightarrow> bool" where
  "test_vision_authenticate_tampered_integrity env hex \<longleftrightarrow>
     (let addr = Domain (ascii ''example.com'') 443; password_hash = vision_password_hash env hex
      in case vision_request_new env Connect addr password_hash of
           Inl _ \<Rightarrow> False
         | Inr request \<Rightarrow>
             (case vision_encode env request of
                Inl _ \<Rightarrow> False
              | Inr encoded \<Rightarrow> encoded \<noteq> [] \<and>
                  (let last_index = length encoded - 1;
                       tampered = encoded[last_index := (encoded ! last_index) XOR 0x01]
                   in case fst (authenticate env (view_reader early_eof 0) [password_hash] (tampered, Open)) of
                        Ready (Inl err) \<Rightarrow> protocol_error ''integrity'' err
                      | _ \<Rightarrow> False)))"

subsection \<open>tests/relay\_integration.rs\<close>

text \<open>
  Both peers write their payload and shut their side down; what they have received and the counts
  are compared when the relay has returned.
\<close>

definition relay_copies_data_in_both_directions ::
  "('c, 't) tunnel_ops \<Rightarrow> ('c \<Rightarrow> bytes) \<Rightarrow> ('t \<Rightarrow> bytes) \<Rightarrow> 'c \<Rightarrow> 't \<Rightarrow> bool" where
  "relay_copies_data_in_both_directions ops received_client received_remote client_stream remote_stream \<longleftrightarrow>
     (let payload_up = replicate (32 * 1024) 0x11; payload_down = replicate (16 * 1024) 0x22
      in case relay ops client_stream remote_stream of
           (Ready (Inr (upstream_bytes, downstream_bytes)), client, Some remote) \<Rightarrow>
             upstream_bytes = of_nat (length payload_up) \<and>
             downstream_bytes = of_nat (length payload_down) \<and>
             received_remote remote = payload_up \<and> received_client client = payload_down
         | _ \<Rightarrow> False)"

section \<open>They pass\<close>

lemma command_tests: "test_command_from_u8" "test_command_as_u8"
  by code_simp+

lemma address_tests: "test_address_ipv4" "test_address_domain"
  by code_simp+

lemma config_tests: "test_default_config" "test_validate_host_port_accepts_socket_addr"
  "test_validate_host_port_accepts_hostname_port" "test_validate_host_port_rejects_invalid_values"
  by code_simp+

lemma udp_tests: "test_read_udp_frame_ipv4" "test_read_udp_frame_eof" "test_read_udp_frame_invalid_crlf"
  "test_build_udp_frame_ipv6"
  by code_simp
    (code_simp, code_simp, simp add: test_build_udp_frame_ipv6_def build_udp_frame_def
      UDP_MAX_PAYLOAD_LEN_def UDP_CRLF_def slice_def slice_from_def ipv6_octets_def to_be_u16 Let_def)

lemma read_to_end_numeral:
  "read_to_end (numeral k) m = await (m 32) (\<lambda>chunk.
     if chunk = [] then ret [] else await (read_to_end (pred_numeral k) m) (\<lambda>more. ret (chunk @ more)))"
  by (subst numeral_eq_Suc) (rule read_to_end.simps(2))

lemmas prefixed_eval = prefixed_poll_read_def cursor_copy_def prefixed_new_def mock_def view_read_def
  await_def read_to_end_numeral Let_def

lemma fallback_tests: "test_peek_client_data_reads_bytes" "test_prefixed_stream_reads_prefix_then_inner"
  "test_prefixed_stream_empty_prefix"
  by (simp add: test_peek_client_data_reads_bytes_def peek_client_data_def mock_def view_read_def
        await_def io_try_def Let_def CRLF_def)
    (simp_all add: test_prefixed_stream_reads_prefix_then_inner_def
      test_prefixed_stream_empty_prefix_def prefixed_eval eval_simps)

text \<open>
  The test of the relay, over any streams and any copy with the documented behaviour: with the two
  payloads written and both sides shut down, it passes whenever the relay returns a result.
\<close>

lemma relay_test:
  assumes "tunnel_laws ops vwc sentc vwt sentt"
    and "vwc c = (replicate (32 * 1024) 0x11, Closed)" "sentc c = []"
    and "vwt t = (replicate (16 * 1024) 0x22, Closed)" "sentt t = []"
    and run: "relay ops c t = (Ready (Inr n), c', t')"
  shows "relay_copies_data_in_both_directions ops sentc sentt c t"
proof -
  obtain up down where n: "n = (up, down)" by (cases n)
  from tunnel.relay_forwards [OF tunnel.intro [OF assms(1)] run] obtain t'' i j where t: "t' = Some t''"
    and sent: "sentt t'' = sentt t @ take i (fst (vwc c))" "sentc c' = sentc c @ take j (fst (vwt t))"
    and full: "full_copy i j (fst (vwc c)) (fst (vwt t)) (Ready (Inr n) :: (trojan_error + u64 \<times> u64) poll)" .
  from full assms(2,4) have "i = 32 * 1024" "j = 16 * 1024" "up = of_nat i" "down = of_nat j"
    by (simp_all add: full_copy_def n)
  with sent assms(2-5) show ?thesis
    by (simp add: relay_copies_data_in_both_directions_def Let_def run n t)
qed

text \<open>The header of two tests, for any digest and hex encoding of the documented shape.\<close>

definition secret_header :: "(bytes \<Rightarrow> bytes) \<Rightarrow> (bytes \<Rightarrow> rstring) \<Rightarrow> header" where
  "secret_header sha hex = \<lparr>h_password_hash = hash_password sha hex (ascii ''secret''),
     h_command = Connect, h_address = Domain (ascii ''example.com'') 443\<rparr>"

lemma example_address:
  "wire_address (Domain (ascii ''example.com'') 443) ([TYPE_DOMAIN] @ [11] @ ascii ''example.com'' @ to_be (443 :: u16))"
proof -
  have "utf8_valid (ascii ''example.com'')" by code_simp
  from wire_domain [OF _ this, of 443] show ?thesis by simp
qed

lemma secret_wire:
  assumes "digest_laws sha hex"
  shows "wire_header (secret_header sha hex) (hash_password sha hex (ascii ''secret'') @ CRLF @ [as_u8 Connect] @
    [TYPE_DOMAIN] @ [11] @ ascii ''example.com'' @ to_be (443 :: u16) @ CRLF)"
proof -
  have "length (hash_password sha hex (ascii ''secret'')) = 56"
    "list_all is_ascii_hexdigit (hash_password sha hex (ascii ''secret''))"
    using assms by (simp_all add: digest_laws_def hash_password_def)
  from wire_headerI [OF this example_address, of Connect] show ?thesis
    by (simp add: secret_header_def CRLF_def)
qed

lemma secret_verified:
  "digest_laws sha hex \<Longrightarrow>
   verify_password (secret_header sha hex) [hash_password sha hex (ascii ''secret'')]"
  by (simp add: verify_password_def secret_header_def digest_laws_def hash_password_def PASSWORD_HEX_LEN_def)

lemma header_tests:
  assumes "digest_laws sha hex"
  shows "test_password_hash sha hex" "test_parse_valid_header sha hex" "test_invalid_password_hash_format"
    "test_try_parse_from_buf_valid sha hex" "test_try_parse_from_buf_bad_hash"
    "test_try_parse_from_buf_too_short"
proof -
  note wire = secret_wire [OF assms]
  show "test_password_hash sha hex"
    using assms by (simp add: test_password_hash_def hash_password_def digest_laws_def PASSWORD_HEX_LEN_def)
  show "test_parse_valid_header sha hex"
    using view_header_read_wire [OF wire, of early_eof 0 "[]" Closed] secret_verified [OF assms]
    by (simp add: test_parse_valid_header_def mock_def) (simp add: secret_header_def)
  show "test_try_parse_from_buf_valid sha hex"
    using try_parse_wire [OF wire, of "ascii ''GET / HTTP/1.1'' @ [0x0d, 0x0a]"] secret_verified [OF assms]
    by (simp add: test_try_parse_from_buf_valid_def) (simp add: secret_header_def)
  show "test_invalid_password_hash_format" "test_try_parse_from_buf_bad_hash"
    "test_try_parse_from_buf_too_short"
    by code_simp+
qed

text \<open>The request of the Vision tests and its encoding.\<close>

lemma vision_test_request:
  assumes "digest_size env" and "unix_clock env = Some now" and "digest_laws (sha224 env) hex"
  obtains r base where
    "vision_request_new env Connect (Domain (ascii ''example.com'') 443) (vision_password_hash env hex) = Inr r"
    "vision_encode env r = Inr (base @ sha224 env base)" "wire_request env r (base @ sha224 env base)"
    "v_command r = Connect" "v_address r = Domain (ascii ''example.com'') 443"
    "v_password_hash r = vision_password_hash env hex" "v_timestamp r = now"
    "base = [0xFE, 0x01, as_u8 Connect] @
       ([TYPE_DOMAIN] @ [11] @ ascii ''example.com'' @ to_be (443 :: u16)) @ to_be now @ vision_password_hash env hex"
proof -
  let ?pw = "vision_password_hash env hex" and ?a = "Domain (ascii ''example.com'') 443"
  let ?aw = "[TYPE_DOMAIN] @ [11] @ ascii ''example.com'' @ to_be (443 :: u16)"
  let ?base = "[0xFE, 0x01, as_u8 Connect] @ ?aw @ to_be now @ ?pw"
  let ?r = "\<lparr>v_magic = 0xFE, v_version = 0x01, v_command = Connect, v_address = ?a,
      v_timestamp = now, v_password_hash = ?pw, v_integrity_hash = sha224 env ?base\<rparr>"
  have pw: "length ?pw = 56" "list_all is_ascii_hexdigit ?pw"
    using assms(3) by (simp_all add: vision_password_hash_def digest_laws_def)
  have named: "?a \<noteq> Domain [] p" for p by (simp add: eval_simps)
  have enc: "encode ?a = Inr ?aw" by (rule wire_encode [OF example_address named])
  have new: "vision_request_new env Connect ?a ?pw = Inr ?r"
    using pw assms(2) enc
    by (simp add: vision_request_new_def parse_password_hash_def vision_consts current_unix_timestamp_def
        with_integrity_hash_def encoded_without_integrity_hash_def compute_hash_def del: encode.simps)
  have "vision_encode env ?r = Inr (?base @ sha224 env ?base)"
    using enc by (simp add: vision_encode_def with_integrity_hash_def encoded_without_integrity_hash_def
        encode_with_integrity_hash_def compute_hash_def del: encode.simps)
  from that [OF new this wire_requestI [OF example_address named pw refl]] show thesis by simp
qed

lemma vision_now_fresh: "uint now < 2 ^ 62 \<Longrightarrow> timestamp_expired checks now now = Some False"
  by (rule near_not_expired) simp_all

lemma vision_tests:
  assumes "digest_size env" and "unix_clock env = Some now" and "uint now < 2 ^ 62"
    and "digest_laws (sha224 env) hex"
    and "\<not> eq_ignore_ascii_case (replicate 56 0x61) (vision_password_hash env hex)"
  shows "test_vision_encode_decode env hex" "test_vision_authenticate_valid_password env hex"
    "test_vision_authenticate_wrong_password env hex"
    "test_vision_authenticate_tampered_integrity env hex"
proof -
  obtain r base where r:
    "vision_request_new env Connect (Domain (ascii ''example.com'') 443) (vision_password_hash env hex) = Inr r"
    "vision_encode env r = Inr (base @ sha224 env base)" "wire_request env r (base @ sha224 env base)"
    "v_command r = Connect" "v_address r = Domain (ascii ''example.com'') 443"
    "v_password_hash r = vision_password_hash env hex" "v_timestamp r = now"
    and base: "base = [0xFE, 0x01, as_u8 Connect] @
       ([TYPE_DOMAIN] @ [11] @ ascii ''example.com'' @ to_be (443 :: u16)) @ to_be now @ vision_password_hash env hex"
    by (rule vision_test_request [OF assms(1,2,4)])
  have fresh: "timestamp_expired (overflow_checks env) now now = Some False"
    using assms(3) by (rule vision_now_fresh)
  have read: "vision_read_from env (view_reader early_eof 0) (base @ sha224 env base, Open) =
      (Ready (Inr (Some r)), ([], Open))"
    using view_vision_wire [OF r(3) assms(1,2), of early_eof 0 "[]" Open] fresh r(7) by simp
  have pw: "length (vision_password_hash env hex) = 56" "list_all is_ascii_hexdigit (vision_password_hash env hex)"
    using assms(4) by (simp_all add: vision_password_hash_def digest_laws_def)
  then have utf8: "utf8_valid (vision_password_hash env hex)" by (simp add: utf8_valid_hexdigits)
  show "test_vision_encode_decode env hex"
    using r base by (simp add: test_vision_encode_decode_def vision_consts index_def)
  show "test_vision_authenticate_valid_password env hex"
    using r read utf8 by (simp add: test_vision_authenticate_valid_password_def authenticate_def)
  show "test_vision_authenticate_wrong_password env hex"
    using r read utf8 assms(5) by (simp add: test_vision_authenticate_wrong_password_def authenticate_def)
  show "test_vision_authenticate_tampered_integrity env hex"
  proof -
    let ?h = "sha224 env base" and ?i = "length (base @ sha224 env base) - 1"
    have h: "length ?h = 28" using assms(1) by (simp add: digest_size_def)
    let ?h' = "?h[27 := ?h ! 27 XOR 1]"
    have "bit (?h ! 27 XOR 1 :: u8) 0 \<noteq> bit (?h ! 27) 0" by (simp add: bit_simps)
    then have "?h' ! 27 \<noteq> ?h ! 27" using h by auto
    then have "?h' \<noteq> ?h" by metis
    moreover have "length ?h' = 28" using h by simp
    moreover have "Domain (ascii ''example.com'') 443 \<noteq> Domain [] p" for p by (simp add: eval_simps)
    ultimately have "vision_read_from env (view_reader early_eof 0) (base @ ?h' @ [], Open) =
        (Ready (Inl (Protocol (ascii ''Vision integrity check failed''))), ([], Open))"
      using view_vision_tampered [OF example_address _ pw base _ _ assms(2) fresh] by blast
    moreover have "(base @ ?h)[?i := (base @ ?h) ! ?i XOR 1] = base @ ?h'"
      using h by (simp add: list_update_append nth_append)
    moreover have "sublist (ascii ''integrity'') (ascii ''Vision integrity check failed'')"
      by code_simp
    ultimately show ?thesis
      using r h by (auto simp: test_vision_authenticate_tampered_integrity_def authenticate_def Let_def)
  qed
qed

end
