(* ===== verification/Spec2Isabelle.thy ===== *)
theory Spec2Isabelle
  imports Startup ServerRuns StateMachines SpliceProgress UdpTime UnitTests
begin

text \<open>
  A verification of trojan-rust, a Trojan proxy server (src/src), with its REALITY/Vision extension.

  \<^bold>\<open>The program.\<close> \<open>main\<close> loads a configuration and TLS material and runs a \<open>Server\<close>. Its accept loop
  takes a permit of a semaphore, accepts a connection and spawns a task that performs the TLS
  handshake and calls \<open>handle_connection\<close>. That peeks at most 512 bytes, parses a Trojan header from
  them (password hash, command, address) and compares the hash with the configured ones. An
  authenticated client is proxied, over TCP (\<open>handle_tcp\<close>) or as a UDP association (\<open>handle_udp\<close>);
  every other client is handed with all its bytes to a fallback web server (\<open>handle_fallback\<close>). The
  \<open>reality\<close> modules are a library beside this path: a TLS handshake, the Vision request with an
  integrity hash and a timestamp, two ways to splice streams, and a connection state machine.

  \<^bold>\<open>How it is modelled.\<close> Code of the repository and what it uses of the Rust standard library are
  definitions. tokio, rustls, the PEM and TOML parsers, SHA-224, the clock and the file system are
  arguments: records of operations (\<open>async_reader\<close>, \<open>tunnel_ops\<close>, \<open>udp_ops\<close>, \<open>server_ops\<close>, \<open>duplex_io\<close>,
  \<open>splice_ops\<close>, \<open>config_env\<close>, \<open>vision_env\<close>, \<open>tls_env\<close>). What is assumed of them is the documented
  behaviour, in predicates (\<open>byte_stream_laws\<close>, \<open>tunnel_laws\<close>, \<open>udp_laws\<close>, \<open>server_laws\<close>,
  \<open>duplex_laws\<close>, \<open>copy_poll_law\<close>). Each is the assumption of a locale, in which the lemmas of its
  clients are proved, and each locale is interpreted on streams in memory or on the streams the code builds
  (a \<open>PrefixedStream\<close>, an \<open>UnwrapStream\<close>). An asynchronous operation is a function of the state of a stream to
  \<open>Ready\<close> of a result, or \<open>Pending\<close> for ever; a stream is described by the bytes that have arrived and
  how they end (closed, broken, or open). Errors are the \<open>Inl\<close> of a sum, a panic is \<open>None\<close>,
  machine integers are words, times are natural numbers of nanoseconds. What runs concurrently is a list of turns,
  sides or events, over which the theorems quantify. A future that is polled again and again is part of the state where
  dropping it matters: the frame reader of a UDP association (\<open>us_reading\<close>) and the tasks of \<open>tcp_splice\<close>
  (\<open>copy_task\<close>).

  \<^bold>\<open>Theories and sources.\<close>
  \<^item> Prelude: the effect type and its combinators, big-endian numbers, UTF-8, decimal and
    hexadecimal printing, checked indexing. Errors: error.rs. Net: the socket addresses of the standard library,
    printed and parsed.
  \<^item> Streams: the interface to tokio's readers, and the lemma that a reader's code computes on the view
    of any documented reader what it computes on the bytes themselves (\<open>simulates\<close>).
  \<^item> Commands (protocol/command.rs), Addresses (protocol/address.rs), Headers (protocol/header.rs):
    inductive wire formats and error relations, and proofs that parsers, readers and encoders
    compute them.
  \<^item> Sessions (proxy/session.rs), Prefixed and Tunnel (proxy/fallback.rs, relay.rs, tcp.rs).
  \<^item> UdpFrames and Udp (proxy/udp.rs): frames, and the association loop over a list of turns, each with
    its times: accounting, order and loss; UdpTime: its idle timeout.
  \<^item> Configs (config.rs): deserialization with defaults, validation and its invariant.
  \<^item> Connections (server.rs, \<open>handle_connection\<close>): peeking, the verdict on a client, dispatch; Servers
    (server.rs, \<open>Server\<close>): the accept loop as a step relation, its invariant and its progress; ServerRuns: the
    same loop with tasks that run \<open>handle_connection\<close> and share the session counter, which refines it.
  \<^item> Tls (tls.rs, reality/handshake.rs), Startup (main.rs).
  \<^item> Vision (reality/vision.rs), Splices and SpliceProgress (reality/splice.rs: \<open>DirectSplice\<close>, and \<open>tcp_splice\<close> with
    the halves of its streams and its two tasks), StateMachines (reality/state\_machine.rs).
  \<^item> UnitTests: the tests of the repository, as predicates the model satisfies; that of the relay for any streams
    with the documented behaviour.

  \<^bold>\<open>What is shown.\<close> Parsers accept exactly the wire formats, reject nothing that could be continued
  to one, never panic, decide every buffer that is long enough, and agree with the readers; encoders are inverse
  to them. A connection depends only on
  the bytes of the client and not on how they are split; it is proxied only after a valid header
  with a configured password, and otherwise the fallback sees the stream from its first byte. Relays
  pass on bytes in order and count them; UDP associations forward frames in order, and lose at most one incomplete piece of the stream for each
  datagram: that a frame which arrives in two pieces is lost to a datagram in between is a theorem; they end when nothing
  has happened for the idle timeout of the configuration, and not before.
  Permits are conserved, and with at least one permit the accept loop is stuck only
  as long as no connection ends, which clients that send nothing can bring about, since neither the handshake nor
  peeking has a timeout; over all interleavings every client is served by the verdict on its bytes, and
  session identifiers are unique. The configuration
  satisfies its invariant when it is loaded, and startup fails with code 1 otherwise. Vision requests are read back,
  authentic and timely, up to one timestamp the wrapping arithmetic lets through; forwarding
  by the state machine requires one. The two copies of \<open>tcp_splice\<close> pass on each side's bytes to the other, on any
  schedule, and it succeeds only when both sides have ended. The findings these proofs led to are in the manifest.

  \<^bold>\<open>Bounds.\<close> The readers have no loops. The peek loop recurses on the room that is left in its window
  of 512 bytes, and a header is at most 320 bytes long, so the window is enough. The association loop,
  \<open>tcp_splice\<close> and \<open>DirectSplice\<close> recurse on the list of their turns, which stands for the schedule and not for
  fuel: a list that ends leaves the loop waiting, and \<open>direct_splice_terminates\<close> says which
  lists suffice.

  \<^bold>\<open>Not modelled.\<close> Log output; the clocks of timeouts other than the idle timeout of UDP (that one of them
  elapses is a result of the operation it covers); what a task of \<open>tcp_splice\<close> still does when the other one has panicked
  and \<open>tcp_splice\<close> has returned; panics inside tokio or rustls; the panic of a
  debug build when a count of bytes passes \<open>2 ^ 64\<close> (it wraps here); memory; \<open>VisionProtocol\<close> holds only the duration of
  its timeout. The benchmark and the module declarations hold no code of the program.
\<close>

section \<open>Types of parsed values\<close>

text \<open>
  The Rust types are wider than what the code means by them: an \<open>Address::IPv4\<close> could hold an IPv6
  socket address. A typed address holds the family its constructor says, and its domain is a
  \<open>String\<close> that fits its length byte.
\<close>

fun address_typed :: "address \<Rightarrow> bool" where
  "address_typed (IPv4 (V4 ip p)) \<longleftrightarrow> True"
| "address_typed (IPv4 (V6 ip p flow scope)) \<longleftrightarrow> False"
| "address_typed (IPv6 (V6 ip p flow scope)) \<longleftrightarrow> flow = 0 \<and> scope = 0"
| "address_typed (IPv6 (V4 ip p)) \<longleftrightarrow> False"
| "address_typed (Domain d p) \<longleftrightarrow> utf8_valid d \<and> length d \<le> 255"

lemma wire_address_typed: "wire_address a w \<Longrightarrow> address_typed a"
  by (induction rule: wire_address.induct) auto

lemma wire_header_typed:
  "wire_header h w \<Longrightarrow> address_typed (h_address h) \<and> length (h_password_hash h) = 56 \<and>
     list_all is_ascii_hexdigit (h_password_hash h)"
  by (auto elim!: wire_header.cases intro: wire_address_typed)

lemma wire_frame_typed:
  "wire_frame f w \<Longrightarrow> address_typed (f_address f) \<and> f_address f \<noteq> Domain [] p \<and> length (f_payload f) \<le> 65535"
  by (auto elim!: wire_frame.cases intro: wire_address_typed)

lemma wire_request_typed:
  "wire_request env r w \<Longrightarrow> digest_size env \<Longrightarrow> address_typed (v_address r) \<and>
     v_address r \<noteq> Domain [] p \<and> length (v_password_hash r) = 56 \<and> length (v_integrity_hash r) = 28"
  by (auto elim!: wire_request.cases intro: wire_address_typed simp: digest_size_def)

text \<open>
  C34. Whatever bytes arrive, parsed values are well typed: an address has the family of its
  constructor, its domain is valid UTF-8 of at most 255 bytes (and not empty in UDP frames and
  Vision requests); password hashes are 56 hex digits, payloads fit a datagram, integrity hashes
  have the size of a digest.
\<close>

theorem parsed_values_well_typed:
  assumes "byte_stream_laws R vw eof" and "digest_size env" and "unix_clock env = Some now"
  shows "(try_parse_from_buf buf = Some (Inr (Some h)) \<longrightarrow> address_typed (h_address h) \<and>
      length (h_password_hash h) = 56 \<and> list_all is_ascii_hexdigit (h_password_hash h)) \<and>
    (fst (address_read_from R s) = Ready (Inr a) \<longrightarrow> address_typed a) \<and>
    (fst (read_udp_frame R s) = Ready (Inr (Some f)) \<longrightarrow> address_typed (f_address f) \<and>
      f_address f \<noteq> Domain [] p \<and> length (f_payload f) \<le> 65535) \<and>
    (fst (vision_read_from env R s) = Ready (Inr (Some r)) \<longrightarrow> address_typed (v_address r) \<and>
      v_address r \<noteq> Domain [] p \<and> length (v_password_hash r) = 56 \<and> length (v_integrity_hash r) = 28)"
proof -
  have stream: "byte_stream R vw eof" using assms(1) by (rule byte_stream.intro)
  obtain bs fin where v: "vw s = (bs, fin)" by fastforce
  have "address_typed a" if "fst (address_read_from R s) = Ready (Inr a)"
  proof -
    have "fst (address_read_from (view_reader eof 0) (bs, fin)) = Ready (Inr a)"
      using simulates_result [OF byte_stream.sim_address_read_from [OF stream], of s] that v by simp
    then obtain t where "address_read_from (view_reader eof 0) (bs, fin) = (Ready (Inr a), t)"
      by (metis prod.collapse)
    then show ?thesis by (auto simp: view_read_from_Inr_iff intro: wire_address_typed)
  qed
  moreover have "address_typed (f_address f) \<and> f_address f \<noteq> Domain [] p \<and> length (f_payload f) \<le> 65535"
    if "fst (read_udp_frame R s) = Ready (Inr (Some f))"
  proof -
    have "fst (read_udp_frame (view_reader eof 0) (bs, fin)) = Ready (Inr (Some f))"
      using byte_stream.read_udp_frame_result [OF stream, of s 0] that v by simp
    then obtain t where "read_udp_frame (view_reader eof 0) (bs, fin) = (Ready (Inr (Some f)), t)"
      by (metis prod.collapse)
    then show ?thesis using wire_frame_typed by (auto simp: view_frame_Some_iff)
  qed
  moreover have "address_typed (v_address r) \<and> v_address r \<noteq> Domain [] p \<and>
      length (v_password_hash r) = 56 \<and> length (v_integrity_hash r) = 28"
    if "fst (vision_read_from env R s) = Ready (Inr (Some r))"
  proof -
    have "fst (vision_read_from env (view_reader eof 0) (bs, fin)) = Ready (Inr (Some r))"
      using simulates_result [OF byte_stream.sim_vision_read_from [OF stream], of env s] that v by simp
    then obtain t where "vision_read_from env (view_reader eof 0) (bs, fin) = (Ready (Inr (Some r)), t)"
      by (metis prod.collapse)
    then show ?thesis
      using wire_request_typed [OF _ assms(2)] by (auto simp: view_vision_Some_iff [OF assms(2,3)])
  qed
  ultimately show ?thesis
    using wire_header_typed by (auto simp: try_parse_Some_iff)
qed

theorem parsed_values_well_typed_witness:
  "address_typed (h_address (demo_header Connect)) \<and> address_typed (Domain [0x61] 80)"
proof -
  have "try_parse_from_buf (demo_wire Connect) = Some (Inr (Some (demo_header Connect)))"
    using demo_wire_ok [of Connect] by (auto simp: try_parse_Some_iff intro: exI [of _ "[]"])
  moreover have "fst (address_read_from (view_reader early_eof 0) ([3, 1, 0x61, 0, 80], Open)) =
      Ready (Inr (Domain [0x61] 80))"
    by code_simp
  ultimately show ?thesis
    using parsed_values_well_typed [OF slice_stream.laws demo_digest demo_clock,
        of "demo_wire Connect" "demo_header Connect" 0 "([3, 1, 0x61, 0, 80], Open)" "Domain [0x61] 80"]
    by blast
qed

end
